theory Spec2Isabelle
  imports Main "HOL-Library.Sublist"
begin

section \<open>Time and calendar\<close>

text \<open>
  An instant is a JavaScript time value: milliseconds since the epoch, as \<open>Date.getTime()\<close>
  returns it. The calendar functions follow the definitions of the ECMAScript language
  specification (Day, DayFromYear, YearFromTime, MonthFromTime, DateFromTime, MakeDay), read
  in a local time zone with a fixed zero offset. Every \<open>new Date()\<close> read inside one method
  call (and inside one request) is taken to return the same instant, the parameter \<open>now\<close>.
\<close>

type_synonym instant = int

definition msPerDay :: int where
  "msPerDay = 86400000"

definition msPerHour :: int where
  "msPerHour = 3600000"

text \<open>\<open>Math.ceil(a / b)\<close> for integers \<open>a\<close> and \<open>b > 0\<close>.\<close>

definition ceilDiv :: "int \<Rightarrow> int \<Rightarrow> int" where
  "ceilDiv a b = - ((- a) div b)"

definition Day :: "instant \<Rightarrow> int" where
  "Day t = t div msPerDay"

definition DayFromYear :: "int \<Rightarrow> int" where
  "DayFromYear y =
     365 * (y - 1970) + (y - 1969) div 4 - (y - 1901) div 100 + (y - 1601) div 400"

definition InLeapYear :: "int \<Rightarrow> bool" where
  "InLeapYear y = (y mod 4 = 0 \<and> (y mod 100 \<noteq> 0 \<or> y mod 400 = 0))"

text \<open>The year of a day number: the largest \<open>y\<close> with \<open>DayFromYear y \<le> d\<close>, found from the
  estimate \<open>1970 + 400 d / 146097\<close>, which is off by at most one.\<close>

definition YearFromDay :: "int \<Rightarrow> int" where
  "YearFromDay d =
     (let y = 1970 + (d * 400) div 146097
      in if d < DayFromYear y then y - 1
         else if DayFromYear (y + 1) \<le> d then y + 1
         else y)"

text \<open>Day number within the year at which month \<open>m\<close> (0 = January, 12 = the next January)
  starts.\<close>

definition monthStart :: "bool \<Rightarrow> int \<Rightarrow> int" where
  "monthStart leap m =
     (let l = (if leap then 1 else 0)
      in if m \<le> 0 then 0
         else if m = 1 then 31
         else if m = 2 then 59 + l
         else if m = 3 then 90 + l
         else if m = 4 then 120 + l
         else if m = 5 then 151 + l
         else if m = 6 then 181 + l
         else if m = 7 then 212 + l
         else if m = 8 then 243 + l
         else if m = 9 then 273 + l
         else if m = 10 then 304 + l
         else if m = 11 then 334 + l
         else 365 + l)"

definition MonthFromDay :: "bool \<Rightarrow> int \<Rightarrow> int" where
  "MonthFromDay leap dwy =
     (if dwy < monthStart leap 1 then 0
      else if dwy < monthStart leap 2 then 1
      else if dwy < monthStart leap 3 then 2
      else if dwy < monthStart leap 4 then 3
      else if dwy < monthStart leap 5 then 4
      else if dwy < monthStart leap 6 then 5
      else if dwy < monthStart leap 7 then 6
      else if dwy < monthStart leap 8 then 7
      else if dwy < monthStart leap 9 then 8
      else if dwy < monthStart leap 10 then 9
      else if dwy < monthStart leap 11 then 10
      else 11)"

definition getFullYear :: "instant \<Rightarrow> int" where
  "getFullYear t = YearFromDay (Day t)"

definition DayWithinYear :: "instant \<Rightarrow> int" where
  "DayWithinYear t = Day t - DayFromYear (getFullYear t)"

definition getMonth :: "instant \<Rightarrow> int" where
  "getMonth t = MonthFromDay (InLeapYear (getFullYear t)) (DayWithinYear t)"

definition getDate :: "instant \<Rightarrow> int" where
  "getDate t = DayWithinYear t - monthStart (InLeapYear (getFullYear t)) (getMonth t) + 1"

text \<open>\<open>getDay()\<close>: 0 = Sunday; the epoch was a Thursday.\<close>

definition getDay :: "instant \<Rightarrow> int" where
  "getDay t = (Day t + 4) mod 7"

text \<open>\<open>new Date(year, month, date).getTime()\<close>: midnight at the start of that day, with the
  month carried over into the year and the date carried over into the following days, as
  MakeDay does. (The constructor's special reading of the years 0 to 99 is outside the
  model: the instants of interest are current clock readings.)\<close>

definition MakeDay :: "int \<Rightarrow> int \<Rightarrow> int \<Rightarrow> int" where
  "MakeDay y m dt =
     (let ym = y + m div 12; mn = m mod 12
      in DayFromYear ym + monthStart (InLeapYear ym) mn + dt - 1)"

definition newDate :: "int \<Rightarrow> int \<Rightarrow> int \<Rightarrow> instant" where
  "newDate y m dt = MakeDay y m dt * msPerDay"

section \<open>Number and string formatting\<close>

fun digits :: "nat \<Rightarrow> string" where
  "digits n =
     (if n < 10 then [''0123456789'' ! n]
      else digits (n div 10) @ [''0123456789'' ! (n mod 10)])"

declare digits.simps [simp del]

text \<open>A template literal \<open>${n}\<close> of an integer-valued number.\<close>

definition showInt :: "int \<Rightarrow> string" where
  "showInt i = (if i < 0 then CHR ''-'' # digits (nat (- i)) else digits (nat i))"

text \<open>\<open>s.padStart(2, '0')\<close>\<close>

definition padStart2 :: "string \<Rightarrow> string" where
  "padStart2 s = replicate (2 - length s) CHR ''0'' @ s"

text \<open>The year-month token \<open>`${now.getFullYear()}-${String(now.getMonth() + 1).padStart(2, '0')}`\<close>\<close>

definition monthToken :: "instant \<Rightarrow> string" where
  "monthToken t = showInt (getFullYear t) @ ''-'' @ padStart2 (showInt (getMonth t + 1))"

text \<open>\<open>s || d\<close> on strings: the empty string is falsy.\<close>

definition orDefault :: "string \<Rightarrow> string \<Rightarrow> string" where
  "orDefault s d = (if s = [] then d else s)"

section \<open>The user model (models/User.js)\<close>

text \<open>
  The fields of the user document that the download accounting reads or writes. Name, email,
  password, role, one-time password, preferences and the floating-point statistic
  \<open>downloadStats.averageDownloadsPerDay\<close> take no part in it and are left out. Counters are
  integer-valued numbers, for which \<open>x || 0\<close> is \<open>x\<close>.
\<close>

datatype Subscription = Free | Premium

record HistoryEntry =
  h_productId :: nat
  productTitle :: string
  productCategory :: string
  downloadedAt :: instant
  downloadSource :: string
  h_ipAddress :: string

record DownloadStats =
  s_totalDownloads :: int
  themesDownloaded :: int
  pluginsDownloaded :: int
  templatesDownloaded :: int
  graphicsDownloaded :: int
  mostActiveDay :: "string option"
  lastStatsUpdate :: instant

record User =
  isVerified :: bool
  subscription :: Subscription
  dailyDownloads :: int
  dailyDownloadDate :: "instant option"
  monthlyDownloads :: int
  monthlyDownloadMonth :: string
  totalDownloads :: int
  premiumExpiry :: "instant option"
  createdAt :: instant
  lastActivity :: instant
  downloads :: "HistoryEntry list"
  downloadStats :: DownloadStats

text \<open>\<open>new Date(t.getFullYear(), t.getMonth(), t.getDate())\<close>: the start of the calendar day
  of \<open>t\<close>.\<close>

definition startOfDay :: "instant \<Rightarrow> instant" where
  "startOfDay t = newDate (getFullYear t) (getMonth t) (getDate t)"

text \<open>\<open>resetDailyDownloadsIfNeeded\<close>: the result is the returned boolean and the document
  after the call.\<close>

definition resetDailyDownloadsIfNeeded :: "instant \<Rightarrow> User \<Rightarrow> bool \<times> User" where
  "resetDailyDownloadsIfNeeded now u =
     (let today = startOfDay now;
          lastDownloadDay = map_option startOfDay (dailyDownloadDate u)
      in if (case lastDownloadDay of None \<Rightarrow> True | Some l \<Rightarrow> today > l)
         then (let wasReset = dailyDownloads u > 0
               in (wasReset, u\<lparr>dailyDownloads := 0, dailyDownloadDate := Some today\<rparr>))
         else (False, u))"

definition resetMonthlyDownloadsIfNeeded :: "instant \<Rightarrow> User \<Rightarrow> bool \<times> User" where
  "resetMonthlyDownloadsIfNeeded now u =
     (let currentMonth = monthToken now
      in if monthlyDownloadMonth u \<noteq> currentMonth
         then (let wasReset = monthlyDownloads u > 0
               in (wasReset, u\<lparr>monthlyDownloads := 0, monthlyDownloadMonth := currentMonth\<rparr>))
         else (False, u))"

text \<open>The local constants \<open>isPremium\<close>, \<open>isActive\<close> and \<open>monthlyLimit\<close> that \<open>canDownload\<close>,
  \<open>incrementDownloadCount\<close> and \<open>getDownloadStats\<close> each compute the same way. A missing
  \<open>premiumExpiry\<close> is falsy.\<close>

definition isPremium :: "User \<Rightarrow> bool" where
  "isPremium u = (subscription u = Premium)"

definition isActive :: "instant \<Rightarrow> User \<Rightarrow> bool" where
  "isActive now u =
     (isPremium u \<and> (case premiumExpiry u of None \<Rightarrow> False | Some e \<Rightarrow> e > now))"

definition dailyLimit :: int where
  "dailyLimit = 15"

definition monthlyLimit :: "instant \<Rightarrow> User \<Rightarrow> int" where
  "monthlyLimit now u = (if isActive now u then 500 else 350)"

record Window =
  used :: int
  limit :: int
  remaining :: int
  untilReset :: "int option"

record SubscriptionStatus =
  active :: bool
  expiry :: "instant option"
  daysLeft :: int

record ResetInfo =
  dailyReset :: bool
  monthlyReset :: bool
  nextDailyReset :: instant
  nextMonthlyReset :: instant

record QuotaCheck =
  r_canDownload :: bool
  r_reason :: string
  r_subscription :: Subscription
  r_daily :: Window
  r_monthly :: Window
  r_total :: int
  r_requiresVerification :: bool
  r_subscriptionStatus :: SubscriptionStatus
  r_resetInfo :: "ResetInfo option"

definition plural :: "int \<Rightarrow> string" where
  "plural n = (if n = 1 then [] else ''s'')"

definition dailyReason :: "int \<Rightarrow> int \<Rightarrow> int \<Rightarrow> string" where
  "dailyReason dailyUsed lim hoursUntilDailyReset =
     ''Daily limit reached ('' @ showInt dailyUsed @ ''/'' @ showInt lim
       @ ''). Resets automatically in '' @ showInt hoursUntilDailyReset
       @ '' hour'' @ plural hoursUntilDailyReset @ ''.''"

definition monthlyReason :: "int \<Rightarrow> int \<Rightarrow> int \<Rightarrow> bool \<Rightarrow> string" where
  "monthlyReason monthlyUsed lim daysUntilMonthlyReset upsell =
     ''Monthly limit reached ('' @ showInt monthlyUsed @ ''/'' @ showInt lim
       @ ''). Resets in '' @ showInt daysUntilMonthlyReset
       @ '' day'' @ plural daysUntilMonthlyReset @ ''.''
       @ (if upsell then '' Upgrade to premium for 500 downloads/month!'' else [])"

definition tomorrow :: "instant \<Rightarrow> instant" where
  "tomorrow now = newDate (getFullYear now) (getMonth now) (getDate now + 1)"

definition nextMonth :: "instant \<Rightarrow> instant" where
  "nextMonth now = newDate (getFullYear now) (getMonth now + 1) 1"

definition hoursUntilDailyReset :: "instant \<Rightarrow> int" where
  "hoursUntilDailyReset now = ceilDiv (tomorrow now - now) msPerHour"

definition daysUntilMonthlyReset :: "instant \<Rightarrow> int" where
  "daysUntilMonthlyReset now = ceilDiv (nextMonth now - now) msPerDay"

text \<open>\<open>canDownload\<close>: the returned object and the document after the call (the lazy resets
  mutate it in memory).\<close>

definition canDownload :: "instant \<Rightarrow> User \<Rightarrow> QuotaCheck \<times> User" where
  "canDownload now u =
     (if \<not> isVerified u then
        (\<lparr>r_canDownload = False,
          r_reason = ''Email not verified - please check your email and verify your account'',
          r_subscription = subscription u,
          r_daily = \<lparr>used = 0, limit = 15, remaining = 15, untilReset = None\<rparr>,
          r_monthly = \<lparr>used = 0, limit = 350, remaining = 350, untilReset = None\<rparr>,
          r_total = totalDownloads u,
          r_requiresVerification = True,
          r_subscriptionStatus = \<lparr>active = False, expiry = None, daysLeft = 0\<rparr>,
          r_resetInfo = None\<rparr>, u)
      else
        (let (dReset, u1) = resetDailyDownloadsIfNeeded now u;
             (mReset, u2) = resetMonthlyDownloadsIfNeeded now u1;
             act = isActive now u2;
             mLimit = monthlyLimit now u2;
             dailyUsed = dailyDownloads u2;
             monthlyUsed = monthlyDownloads u2;
             dailyRemaining = max 0 (dailyLimit - dailyUsed);
             monthlyRemaining = max 0 (mLimit - monthlyUsed);
             can = (dailyRemaining > 0 \<and> monthlyRemaining > 0);
             subscriptionStatus =
               \<lparr>active = act, expiry = premiumExpiry u2,
                daysLeft = (case premiumExpiry u2 of
                              None \<Rightarrow> 0
                            | Some e \<Rightarrow> if isPremium u2
                                        then max 0 (ceilDiv (e - now) msPerDay) else 0)\<rparr>;
             reason =
               (if \<not> can then
                  (if dailyRemaining \<le> 0
                   then dailyReason dailyUsed dailyLimit (hoursUntilDailyReset now)
                   else if monthlyRemaining \<le> 0
                   then monthlyReason monthlyUsed mLimit (daysUntilMonthlyReset now)
                          (\<not> act \<and> \<not> isPremium u2)
                   else ''Within limits'')
                else ''Within limits'')
         in (\<lparr>r_canDownload = can,
              r_reason = reason,
              r_subscription = subscription u2,
              r_daily = \<lparr>used = dailyUsed, limit = dailyLimit, remaining = dailyRemaining,
                         untilReset = Some (hoursUntilDailyReset now)\<rparr>,
              r_monthly = \<lparr>used = monthlyUsed, limit = mLimit, remaining = monthlyRemaining,
                           untilReset = Some (daysUntilMonthlyReset now)\<rparr>,
              r_total = totalDownloads u2,
              r_requiresVerification = False,
              r_subscriptionStatus = subscriptionStatus,
              r_resetInfo = Some \<lparr>dailyReset = dReset, monthlyReset = mReset,
                                  nextDailyReset = tomorrow now,
                                  nextMonthlyReset = nextMonth now\<rparr>\<rparr>, u2)))"

text \<open>The argument of \<open>incrementDownloadCount\<close>. A missing \<open>productId\<close> is \<open>None\<close>; a missing
  string is the empty string, which \<open>||\<close> replaces by the default.\<close>

record ProductData =
  pd_productId :: "nat option"
  pd_productTitle :: string
  pd_productCategory :: string
  pd_downloadSource :: string
  pd_ipAddress :: string

text \<open>\<open>toLocaleDateString('en-US', { weekday: 'long' })\<close>\<close>

definition weekdayName :: "instant \<Rightarrow> string" where
  "weekdayName t =
     (let d = getDay t
      in if d = 0 then ''Sunday'' else if d = 1 then ''Monday''
         else if d = 2 then ''Tuesday'' else if d = 3 then ''Wednesday''
         else if d = 4 then ''Thursday'' else if d = 5 then ''Friday''
         else ''Saturday'')"

definition bumpCategory :: "string \<Rightarrow> DownloadStats \<Rightarrow> DownloadStats" where
  "bumpCategory c st =
     (if c = ''themes'' then st\<lparr>themesDownloaded := themesDownloaded st + 1\<rparr>
      else if c = ''plugins'' then st\<lparr>pluginsDownloaded := pluginsDownloaded st + 1\<rparr>
      else if c = ''templates'' then st\<lparr>templatesDownloaded := templatesDownloaded st + 1\<rparr>
      else if c = ''graphics'' then st\<lparr>graphicsDownloaded := graphicsDownloaded st + 1\<rparr>
      else st)"

text \<open>The in-memory part of \<open>incrementDownloadCount\<close>, up to its \<open>await this.save()\<close>.\<close>

definition incrementCounters :: "instant \<Rightarrow> ProductData \<Rightarrow> User \<Rightarrow> User" where
  "incrementCounters now pd u =
     (let (dReset, u1) = resetDailyDownloadsIfNeeded now u;
          (mReset, u2) = resetMonthlyDownloadsIfNeeded now u1;
          u3 = u2\<lparr>dailyDownloads := dailyDownloads u2 + 1,
                  monthlyDownloads := monthlyDownloads u2 + 1,
                  totalDownloads := totalDownloads u2 + 1\<rparr>
      in case pd_productId pd of
           None \<Rightarrow> u3
         | Some pid \<Rightarrow>
             u3\<lparr>downloads := downloads u3 @
                    [\<lparr>h_productId = pid,
                      productTitle = orDefault (pd_productTitle pd) ''Unknown Product'',
                      productCategory = orDefault (pd_productCategory pd) ''unknown'',
                      downloadedAt = now,
                      downloadSource = orDefault (pd_downloadSource pd) ''web'',
                      h_ipAddress = orDefault (pd_ipAddress pd) ''unknown''\<rparr>],
                 downloadStats :=
                   (bumpCategory (pd_productCategory pd)
                      ((downloadStats u3)\<lparr>s_totalDownloads := totalDownloads u3\<rparr>))
                     \<lparr>mostActiveDay := Some (weekdayName now), lastStatsUpdate := now\<rparr>\<rparr>)"

section \<open>Products, download records and the database\<close>

record Product =
  title :: string
  category :: string
  downloadUrl :: string
  p_downloads :: int
  p_isActive :: bool

record Download =
  d_userId :: nat
  d_productId :: nat
  downloadDate :: instant
  d_ipAddress :: string
  d_userAgent :: string
  d_downloadUrl :: string

record Database =
  users :: "nat \<rightharpoonup> User"
  products :: "nat \<rightharpoonup> Product"
  downloadColl :: "Download list"

text \<open>
  A session with a transaction: writes made with the session are staged in \<open>working\<close> and
  reach the database when the transaction commits; aborting leaves the database as it was
  when the transaction started. A document loaded through a query bound to the session
  saves through that session.
\<close>

record Session =
  committed :: Database
  working :: Database

definition startTransaction :: "Database \<Rightarrow> Session" where
  "startTransaction db = \<lparr>committed = db, working = db\<rparr>"

definition abortTransaction :: "Session \<Rightarrow> Database" where
  "abortTransaction s = committed s"

definition commitTransaction :: "Session \<Rightarrow> Database" where
  "commitTransaction s = working s"

text \<open>\<open>user.save()\<close> with the second \<open>pre('save')\<close> hook: a modified, existing document gets
  \<open>lastActivity = new Date()\<close>. The result is the saved document and the session.\<close>

definition saveUser :: "instant \<Rightarrow> nat \<Rightarrow> User \<Rightarrow> Session \<Rightarrow> User \<times> Session" where
  "saveUser now uid u s =
     (let u' = u\<lparr>lastActivity := now\<rparr>
      in (u', s\<lparr>working := (working s)\<lparr>users := (users (working s))(uid \<mapsto> u')\<rparr>\<rparr>))"

definition saveProduct :: "nat \<Rightarrow> Product \<Rightarrow> Session \<Rightarrow> Session" where
  "saveProduct pid p s =
     s\<lparr>working := (working s)\<lparr>products := (products (working s))(pid \<mapsto> p)\<rparr>\<rparr>"

definition saveDownload :: "Download \<Rightarrow> Session \<Rightarrow> Session" where
  "saveDownload d s =
     s\<lparr>working := (working s)\<lparr>downloadColl := downloadColl (working s) @ [d]\<rparr>\<rparr>"

record IncrementSummary =
  dailyCount :: int
  monthlyCount :: int
  totalCount :: int
  dailyRemaining :: int
  monthlyRemaining :: int

text \<open>\<open>incrementDownloadCount\<close> of the document stored under \<open>uid\<close>. \<open>saveFails\<close> says
  whether \<open>this.save()\<close> rejects; the method then throws, which is \<open>None\<close>.\<close>

definition incrementDownloadCount ::
  "bool \<Rightarrow> instant \<Rightarrow> nat \<Rightarrow> ProductData \<Rightarrow> User \<Rightarrow> Session
     \<Rightarrow> (IncrementSummary \<times> User \<times> Session) option" where
  "incrementDownloadCount saveFails now uid pd u s =
     (let u1 = incrementCounters now pd u;
          mLimit = monthlyLimit now u1
      in if saveFails then None
         else (let (u2, s') = saveUser now uid u1 s
               in Some (\<lparr>dailyCount = dailyDownloads u2,
                          monthlyCount = monthlyDownloads u2,
                          totalCount = totalDownloads u2,
                          dailyRemaining = max 0 (15 - dailyDownloads u2),
                          monthlyRemaining = max 0 (mLimit - monthlyDownloads u2)\<rparr>,
                        u2, s')))"

section \<open>POST /api/download/:productId (routes/products.js)\<close>

text \<open>
  The request: the user id of the verified token (\<open>req.user.userId\<close>) and the path
  parameter, which is \<open>None\<close> when it is not a well-formed object id. A fault names the
  awaited database operation that rejects during the request, if any. For a rejected
  \<open>commitTransaction\<close> the fault also says whether the server had already made the
  transaction durable when the rejection reached the driver (an unknown commit result) or
  had discarded it. The emoji that open some messages are left out.
\<close>

record Request =
  req_userId :: nat
  req_productId :: "nat option"
  req_ip :: string
  req_userAgent :: string

datatype Fault =
    NoFault
  | FailFindUser
  | FailFindProduct
  | FailFindDownload
  | FailSaveDownload
  | FailSaveUser
  | FailSaveProduct
  | FailCommit bool

datatype DeniedReset =
    NoResetInfo
  | DailyResetInfo instant int
  | MonthlyResetInfo instant int

record DeniedBody =
  message :: string
  limitsDaily :: Window
  limitsMonthly :: Window
  limitsSubscription :: Subscription
  deniedReset :: DeniedReset
  canUpgrade :: bool

record ProductInfo =
  pi_id :: nat
  pi_title :: string
  pi_category :: string

record ReplayBody =
  rp_message :: string
  rp_downloadUrl :: string
  rp_product :: ProductInfo
  rp_userStats :: QuotaCheck

record AcceptBody =
  ac_message :: string
  ac_downloadUrl :: string
  ac_product :: ProductInfo
  ac_userStats :: QuotaCheck
  ac_download :: Download

datatype Response =
    InvalidProductId
  | UserNotFound
  | VerificationRequired
  | Denied DeniedBody
  | ProductNotFound
  | Replayed ReplayBody
  | Accepted AcceptBody
  | ServerError
  | NoResponse

text \<open>The route's own reset times: \<open>setDate(getDate() + 1); setHours(0, 0, 0, 0)\<close> and
  \<open>setMonth(getMonth() + 1); setDate(1); setHours(0, 0, 0, 0)\<close>.\<close>

definition routeTomorrow :: "instant \<Rightarrow> instant" where
  "routeTomorrow now = newDate (getFullYear now) (getMonth now) (getDate now + 1)"

definition routeNextMonth :: "instant \<Rightarrow> instant" where
  "routeNextMonth now =
     (let t1 = newDate (getFullYear now) (getMonth now + 1) (getDate now)
      in newDate (getFullYear t1) (getMonth t1) 1)"

definition deniedBody :: "instant \<Rightarrow> QuotaCheck \<Rightarrow> DeniedBody" where
  "deniedBody now downloadCheck =
     (let (msg, resetInfo) =
        (if remaining (r_daily downloadCheck) \<le> 0 then
           (''Daily limit reached! You have used all '' @ showInt (limit (r_daily downloadCheck))
              @ '' downloads today. Your limit will reset in 24 hours.'',
            DailyResetInfo (routeTomorrow now) (ceilDiv (routeTomorrow now - now) msPerHour))
         else if remaining (r_monthly downloadCheck) \<le> 0 then
           (''Monthly limit reached! You have used all ''
              @ showInt (limit (r_monthly downloadCheck)) @ '' downloads this month. ''
              @ (if r_subscription downloadCheck = Free
                 then ''Upgrade to premium for 500 downloads per month!''
                 else ''Your limit will reset next month.''),
            MonthlyResetInfo (routeNextMonth now) (ceilDiv (routeNextMonth now - now) msPerDay))
         else ([], NoResetInfo))
      in \<lparr>message = msg,
          limitsDaily = r_daily downloadCheck,
          limitsMonthly = r_monthly downloadCheck,
          limitsSubscription = r_subscription downloadCheck,
          deniedReset = resetInfo,
          canUpgrade = (r_subscription downloadCheck = Free)\<rparr>)"

text \<open>\<open>Download.findOne({ userId, productId, downloadDate: { $gte: thirtyMinutesAgo } })\<close>\<close>

definition existingRecentDownload :: "instant \<Rightarrow> nat \<Rightarrow> nat \<Rightarrow> Database \<Rightarrow> Download option" where
  "existingRecentDownload now uid pid db =
     (let thirtyMinutesAgo = now - 30 * 60 * 1000
      in find (\<lambda>d. d_userId d = uid \<and> d_productId d = pid \<and> downloadDate d \<ge> thirtyMinutesAgo)
           (downloadColl db))"

definition productInfo :: "nat \<Rightarrow> Product \<Rightarrow> ProductInfo" where
  "productInfo pid p = \<lparr>pi_id = pid, pi_title = title p, pi_category = category p\<rparr>"

text \<open>Whether \<open>commitTransaction\<close> rejects, and if so whether the transaction was applied.\<close>

definition commitRejected :: "Fault \<Rightarrow> bool option" where
  "commitRejected fault = (case fault of FailCommit applied \<Rightarrow> Some applied | _ \<Rightarrow> None)"

text \<open>
  The second half of the handler, from \<open>new Download\<close> to the success response: the record,
  the user's counters and the product's counter are written with the session, then the
  transaction commits. A rejected save reaches the \<open>catch\<close> block, which aborts the
  transaction and answers 500. A rejected commit reaches the same block, but the session has
  recorded the commit attempt, so \<open>session.abortTransaction()\<close> itself throws there
  (the driver refuses to abort after a commit): the rest of the block is skipped, no response
  is sent and the handler's promise rejects. The handler rolls nothing back in that case; the
  database is as the server left it, with the whole transaction applied or none of it.
\<close>

definition recordDownload ::
  "Fault \<Rightarrow> instant \<Rightarrow> Request \<Rightarrow> nat \<Rightarrow> Product \<Rightarrow> User \<Rightarrow> Session
     \<Rightarrow> Response \<times> Database" where
  "recordDownload fault now req productId product user1 session =
     (let download =
            \<lparr>d_userId = req_userId req, d_productId = productId, downloadDate = now,
             d_ipAddress = orDefault (req_ip req) ''unknown'',
             d_userAgent = orDefault (req_userAgent req) ''unknown'',
             d_downloadUrl = downloadUrl product\<rparr>
      in if fault = FailSaveDownload then (ServerError, abortTransaction session)
         else
          (let s1 = saveDownload download session
           in case incrementDownloadCount (fault = FailSaveUser) now (req_userId req)
                     \<lparr>pd_productId = Some productId,
                      pd_productTitle = title product,
                      pd_productCategory = category product,
                      pd_downloadSource = ''web'',
                      pd_ipAddress = []\<rparr>
                     user1 s1 of
                None \<Rightarrow> (ServerError, abortTransaction s1)
              | Some (summary, user2, s2) \<Rightarrow>
                 (let product' = product\<lparr>p_downloads := p_downloads product + 1\<rparr>
                  in if fault = FailSaveProduct then (ServerError, abortTransaction s2)
                     else
                      (let s3 = saveProduct productId product' s2
                       in case commitRejected fault of
                            Some applied \<Rightarrow>
                              (NoResponse, if applied then working s3 else committed s3)
                          | None \<Rightarrow>
                           (let db' = commitTransaction s3;
                                (updatedDownloadCheck, user3) = canDownload now user2
                            in (Accepted
                                  \<lparr>ac_message = ''\"'' @ title product
                                     @ ''\" download started successfully!'',
                                   ac_downloadUrl = downloadUrl product,
                                   ac_product = productInfo productId product',
                                   ac_userStats = updatedDownloadCheck,
                                   ac_download = download\<rparr>,
                                db'))))))"

text \<open>The handler. Its result is the response and the database after the request.\<close>

definition consume :: "Fault \<Rightarrow> instant \<Rightarrow> Request \<Rightarrow> Database \<Rightarrow> Response \<times> Database" where
  "consume fault now req db =
     (case req_productId req of
        None \<Rightarrow> (InvalidProductId, db)
      | Some productId \<Rightarrow>
         (let session = startTransaction db
          in if fault = FailFindUser then (ServerError, abortTransaction session)
             else case users (working session) (req_userId req) of
               None \<Rightarrow> (UserNotFound, abortTransaction session)
             | Some user \<Rightarrow>
                if \<not> isVerified user then (VerificationRequired, abortTransaction session)
                else
                  (let (downloadCheck, user1) = canDownload now user
                   in if \<not> r_canDownload downloadCheck
                      then (Denied (deniedBody now downloadCheck), abortTransaction session)
                      else if fault = FailFindProduct then (ServerError, abortTransaction session)
                      else case products (working session) productId of
                        None \<Rightarrow> (ProductNotFound, abortTransaction session)
                      | Some product \<Rightarrow>
                         if \<not> p_isActive product then (ProductNotFound, abortTransaction session)
                         else if fault = FailFindDownload
                         then (ServerError, abortTransaction session)
                         else case existingRecentDownload now (req_userId req) productId
                                     (working session) of
                           Some existing \<Rightarrow>
                             (Replayed
                                \<lparr>rp_message = ''You recently downloaded \"'' @ title product
                                    @ ''\". Here's the download link again!'',
                                 rp_downloadUrl = downloadUrl product,
                                 rp_product = productInfo productId product,
                                 rp_userStats = downloadCheck\<rparr>,
                              abortTransaction session)
                         | None \<Rightarrow>
                             recordDownload fault now req productId product user1 session)))"

section \<open>POST /api/chatbot/download/:productId (routes/chatbot.js)\<close>









section \<open>Derived notions and example data\<close>

text \<open>The document after both lazy resets, as \<open>canDownload\<close> and \<open>incrementDownloadCount\<close>
  leave it in memory.\<close>

definition rolled :: "instant \<Rightarrow> User \<Rightarrow> User" where
  "rolled now u =
     snd (resetMonthlyDownloadsIfNeeded now (snd (resetDailyDownloadsIfNeeded now u)))"

text \<open>Example data. \<open>exNow\<close> is 2024-01-28 12:00:00; its day starts at 1706400000000.\<close>

definition exNow :: instant where
  "exNow = 1706443200000"

definition exStats :: DownloadStats where
  "exStats = \<lparr>s_totalDownloads = 200, themesDownloaded = 120, pluginsDownloaded = 80,
     templatesDownloaded = 0, graphicsDownloaded = 0, mostActiveDay = Some ''Sunday'',
     lastStatsUpdate = 1706350000000\<rparr>"

definition exUser :: User where
  "exUser = \<lparr>isVerified = True, subscription = Free, dailyDownloads = 14,
     dailyDownloadDate = Some 1706400000000, monthlyDownloads = 100,
     monthlyDownloadMonth = ''2024-01'', totalDownloads = 200, premiumExpiry = None,
     createdAt = 1700000000000, lastActivity = 1706420000000, downloads = [],
     downloadStats = exStats\<rparr>"

definition staleIdleUser :: User where
  "staleIdleUser = exUser\<lparr>dailyDownloads := 0, dailyDownloadDate := Some 1706270000000\<rparr>"

definition staleBusyUser :: User where
  "staleBusyUser = exUser\<lparr>dailyDownloads := 15, dailyDownloadDate := Some 1706270000000\<rparr>"

definition unverifiedUser :: User where
  "unverifiedUser = staleBusyUser\<lparr>isVerified := False\<rparr>"

definition expiredPremiumUser :: User where
  "expiredPremiumUser =
     exUser\<lparr>subscription := Premium, premiumExpiry := Some 1705000000000\<rparr>"

definition bothExhaustedUser :: User where
  "bothExhaustedUser = exUser\<lparr>dailyDownloads := 15, monthlyDownloads := 350\<rparr>"

definition monthlyExhaustedUser :: User where
  "monthlyExhaustedUser = exUser\<lparr>dailyDownloads := 3, monthlyDownloads := 350\<rparr>"

text \<open>Which variant a response is.\<close>

fun isAccepted :: "Response \<Rightarrow> bool" where
  "isAccepted (Accepted b) = True"
| "isAccepted r = False"

fun isReplayed :: "Response \<Rightarrow> bool" where
  "isReplayed (Replayed b) = True"
| "isReplayed r = False"

fun isDenied :: "Response \<Rightarrow> bool" where
  "isDenied (Denied b) = True"
| "isDenied r = False"

text \<open>What an accepted request writes: the download record, the user document and the
  database after the commit.\<close>

definition routeProductData :: "nat \<Rightarrow> Product \<Rightarrow> ProductData" where
  "routeProductData pid p =
     \<lparr>pd_productId = Some pid, pd_productTitle = title p, pd_productCategory = category p,
      pd_downloadSource = ''web'', pd_ipAddress = []\<rparr>"

definition acceptedDownload :: "instant \<Rightarrow> Request \<Rightarrow> nat \<Rightarrow> Product \<Rightarrow> Download" where
  "acceptedDownload now req pid p =
     \<lparr>d_userId = req_userId req, d_productId = pid, downloadDate = now,
      d_ipAddress = orDefault (req_ip req) ''unknown'',
      d_userAgent = orDefault (req_userAgent req) ''unknown'',
      d_downloadUrl = downloadUrl p\<rparr>"

definition acceptedUser :: "instant \<Rightarrow> nat \<Rightarrow> Product \<Rightarrow> User \<Rightarrow> User" where
  "acceptedUser now pid p u =
     (incrementCounters now (routeProductData pid p) (rolled now u))\<lparr>lastActivity := now\<rparr>"

definition acceptedDb :: "instant \<Rightarrow> Request \<Rightarrow> nat \<Rightarrow> Product \<Rightarrow> User \<Rightarrow> Database \<Rightarrow> Database" where
  "acceptedDb now req pid p u db =
     db\<lparr>downloadColl := downloadColl db @ [acceptedDownload now req pid p],
        users := (users db)(req_userId req \<mapsto> acceptedUser now pid p u),
        products := (products db)(pid \<mapsto> p\<lparr>p_downloads := p_downloads p + 1\<rparr>)\<rparr>"

text \<open>A sequence of requests, each with its fault and its instant, handled one after the
  other.\<close>

fun consumeAll :: "(Fault \<times> instant \<times> Request) list \<Rightarrow> Database \<Rightarrow> Database" where
  "consumeAll [] db = db"
| "consumeAll ((fault, now, req) # calls) db = consumeAll calls (snd (consume fault now req db))"

definition exProduct :: Product where
  "exProduct = \<lparr>title = ''Aurora'', category = ''themes'',
     downloadUrl = ''https://cdn.example.com/aurora.zip'', p_downloads = 7,
     p_isActive = True\<rparr>"

definition exReq :: Request where
  "exReq = \<lparr>req_userId = 7, req_productId = Some 10, req_ip = ''203.0.113.5'',
     req_userAgent = ''curl/8''\<rparr>"

definition dbOf :: "User \<Rightarrow> Database" where
  "dbOf u = \<lparr>users = [7 \<mapsto> u], products = [10 \<mapsto> exProduct], downloadColl = []\<rparr>"

definition expiringPremiumUser :: User where
  "expiringPremiumUser =
     exUser\<lparr>subscription := Premium, premiumExpiry := Some 1706443201000,
            dailyDownloads := 3, monthlyDownloads := 351\<rparr>"

definition lightUser :: User where
  "lightUser = exUser\<lparr>dailyDownloads := 3\<rparr>"

definition nearLimitUser :: User where
  "nearLimitUser = exUser\<lparr>dailyDownloads := 3, monthlyDownloads := 349\<rparr>"

text \<open>The database after a first example request at \<open>exNow\<close>.\<close>

definition afterFirst :: "User \<Rightarrow> Database" where
  "afterFirst u = snd (consume NoFault exNow exReq (dbOf u))"

section \<open>Calendar facts\<close>

lemma div_lower:
  fixes a b :: int
  assumes "0 < b"
  shows "b * (a div b) \<le> a"
proof -
  have "a = b * (a div b) + a mod b" by simp
  moreover have "0 \<le> a mod b" using assms by simp
  ultimately show ?thesis by linarith
qed

lemma div_upper:
  fixes a b :: int
  assumes "0 < b"
  shows "a - b + 1 \<le> b * (a div b)"
proof -
  have "a = b * (a div b) + a mod b" by simp
  moreover have "a mod b < b" using assms by simp
  ultimately show ?thesis by linarith
qed

lemma succ_div:
  fixes a b :: int
  assumes "0 < b"
  shows "(a + 1) div b = a div b + (if (a + 1) mod b = 0 then 1 else 0)"
proof -
  have eq: "a = b * (a div b) + a mod b" by simp
  have r: "0 \<le> a mod b" "a mod b < b" using assms by simp_all
  show ?thesis
  proof (cases "a mod b + 1 = b")
    case True
    have "a + 1 = b * (a div b) + (a mod b + 1)" using eq by linarith
    also have "\<dots> = b * (a div b + 1) + 0" using True by (simp add: algebra_simps)
    finally have e: "a + 1 = b * (a div b + 1) + 0" .
    have "(a + 1) div b = a div b + 1"
      using e by (rule int_div_pos_eq) (use assms in simp_all)
    moreover have "(a + 1) mod b = 0"
      using e by (rule int_mod_pos_eq) (use assms in simp_all)
    ultimately show ?thesis by simp
  next
    case False
    have e: "a + 1 = b * (a div b) + (a mod b + 1)" using eq by linarith
    have lt: "a mod b + 1 < b" using False r by linarith
    have "(a + 1) div b = a div b"
      using e by (rule int_div_pos_eq) (use r lt in simp_all)
    moreover have "(a + 1) mod b = a mod b + 1"
      using e by (rule int_mod_pos_eq) (use r lt in simp_all)
    ultimately show ?thesis using r by simp
  qed
qed

lemma mod_shift4: "((y::int) - 1969 + 1) mod 4 = 0 \<longleftrightarrow> y mod 4 = 0"
proof -
  have "y - 1969 + 1 = y + 4 * (- 492)" by simp
  then show ?thesis by (metis mod_mult_self2)
qed

lemma mod_shift100: "((y::int) - 1901 + 1) mod 100 = 0 \<longleftrightarrow> y mod 100 = 0"
proof -
  have "y - 1901 + 1 = y + 100 * (- 19)" by simp
  then show ?thesis by (metis mod_mult_self2)
qed

lemma mod_shift400: "((y::int) - 1601 + 1) mod 400 = 0 \<longleftrightarrow> y mod 400 = 0"
proof -
  have "y - 1601 + 1 = y + 400 * (- 4)" by simp
  then show ?thesis by (metis mod_mult_self2)
qed

lemma mod400_imp: "(y::int) mod 400 = 0 \<Longrightarrow> y mod 100 = 0 \<and> y mod 4 = 0"
proof -
  assume "y mod 400 = 0"
  then have "400 dvd y" by (simp add: dvd_eq_mod_eq_0)
  moreover have "(100::int) dvd 400" "(4::int) dvd 400" by simp_all
  ultimately have "100 dvd y" "4 dvd y" using dvd_trans by blast+
  then show ?thesis by (simp add: dvd_eq_mod_eq_0)
qed

lemma mod100_imp: "(y::int) mod 100 = 0 \<Longrightarrow> y mod 4 = 0"
proof -
  assume "y mod 100 = 0"
  then have "100 dvd y" by (simp add: dvd_eq_mod_eq_0)
  moreover have "(4::int) dvd 100" by simp
  ultimately have "4 dvd y" using dvd_trans by blast
  then show ?thesis by (simp add: dvd_eq_mod_eq_0)
qed

lemma DayFromYear_Suc:
  "DayFromYear (y + 1) = DayFromYear y + 365 + (if InLeapYear y then 1 else 0)"
proof -
  define A where "A = (y - 1969) div 4"
  define B where "B = (y - 1901) div 100"
  define C where "C = (y - 1601) div 400"
  define P4 where "P4 = (y mod 4 = 0)"
  define P100 where "P100 = (y mod 100 = 0)"
  define P400 where "P400 = (y mod 400 = 0)"
  have e: "y + 1 - 1969 = y - 1969 + 1" "y + 1 - 1901 = y - 1901 + 1"
    "y + 1 - 1601 = y - 1601 + 1" by simp_all
  have a0: "(y - 1969 + 1) div 4 =
      (y - 1969) div 4 + (if (y - 1969 + 1) mod 4 = 0 then 1 else 0)"
    by (rule succ_div) simp
  have b0: "(y - 1901 + 1) div 100 =
      (y - 1901) div 100 + (if (y - 1901 + 1) mod 100 = 0 then 1 else 0)"
    by (rule succ_div) simp
  have c0: "(y - 1601 + 1) div 400 =
      (y - 1601) div 400 + (if (y - 1601 + 1) mod 400 = 0 then 1 else 0)"
    by (rule succ_div) simp
  have a: "(y + 1 - 1969) div 4 = A + (if P4 then 1 else 0)"
    using a0 unfolding mod_shift4 e A_def P4_def .
  have b: "(y + 1 - 1901) div 100 = B + (if P100 then 1 else 0)"
    using b0 unfolding mod_shift100 e B_def P100_def .
  have c: "(y + 1 - 1601) div 400 = C + (if P400 then 1 else 0)"
    using c0 unfolding mod_shift400 e C_def P400_def .
  have imp: "P400 \<longrightarrow> P100" "P100 \<longrightarrow> P4"
    using mod400_imp [of y] mod100_imp [of y] unfolding P4_def P100_def P400_def by simp_all
  have L: "DayFromYear (y + 1) =
      365 * (y + 1 - 1970) + (A + (if P4 then 1 else 0)) - (B + (if P100 then 1 else 0))
        + (C + (if P400 then 1 else 0))"
    by (simp only: DayFromYear_def a b c)
  have R: "DayFromYear y = 365 * (y - 1970) + A - B + C"
    by (simp only: DayFromYear_def A_def B_def C_def)
  have I: "InLeapYear y = (P4 \<and> (\<not> P100 \<or> P400))"
    by (simp only: InLeapYear_def P4_def P100_def P400_def)
  show ?thesis
    unfolding L R I using imp by (cases P4; cases P100; cases P400; simp)
qed

lemma DayFromYear_lower: "146097 * y - 287811596 \<le> 400 * DayFromYear y"
proof -
  define A where "A = (y - 1969) div 4"
  define B where "B = (y - 1901) div 100"
  define C where "C = (y - 1601) div 400"
  have a: "y - 1969 - 4 + 1 \<le> 4 * A"
    unfolding A_def by (rule div_upper) simp
  have b: "100 * B \<le> y - 1901"
    unfolding B_def by (rule div_lower) simp
  have c: "y - 1601 - 400 + 1 \<le> 400 * C"
    unfolding C_def by (rule div_upper) simp
  have D: "DayFromYear y = 365 * y - 719050 + A - B + C"
    by (simp add: DayFromYear_def A_def B_def C_def)
  show ?thesis unfolding D using a b c by (simp add: algebra_simps)
qed

lemma DayFromYear_upper: "400 * DayFromYear y \<le> 146097 * y - 287810501"
proof -
  define A where "A = (y - 1969) div 4"
  define B where "B = (y - 1901) div 100"
  define C where "C = (y - 1601) div 400"
  have a: "4 * A \<le> y - 1969"
    unfolding A_def by (rule div_lower) simp
  have b: "y - 1901 - 100 + 1 \<le> 100 * B"
    unfolding B_def by (rule div_upper) simp
  have c: "400 * C \<le> y - 1601"
    unfolding C_def by (rule div_lower) simp
  have D: "DayFromYear y = 365 * y - 719050 + A - B + C"
    by (simp add: DayFromYear_def A_def B_def C_def)
  show ?thesis unfolding D using a b c by (simp add: algebra_simps)
qed

lemma YearFromDay_bounds:
  "DayFromYear (YearFromDay d) \<le> d \<and> d < DayFromYear (YearFromDay d + 1)"
proof -
  define E where "E = (d * 400) div 146097"
  define y where "y = 1970 + E"
  have e1: "146097 * E \<le> d * 400"
    unfolding E_def by (rule div_lower) simp
  have e2: "d * 400 - 146097 + 1 \<le> 146097 * E"
    unfolding E_def by (rule div_upper) simp
  have Y: "YearFromDay d =
     (if d < DayFromYear y then y - 1 else if DayFromYear (y + 1) \<le> d then y + 1 else y)"
    by (simp add: YearFromDay_def y_def E_def Let_def)
  have E: "E = y - 1970" by (simp add: y_def)
  have lo: "DayFromYear (y - 1) \<le> d"
    using DayFromYear_upper [of "y - 1"] e1 unfolding E by (simp add: algebra_simps)
  have hi: "d < DayFromYear (y + 1 + 1)"
    using DayFromYear_lower [of "y + 1 + 1"] e2 unfolding E by (simp add: algebra_simps)
  show ?thesis
    unfolding Y using lo hi by auto
qed

lemma YearFromDay_lower: "DayFromYear (YearFromDay d) \<le> d"
  using YearFromDay_bounds by blast

lemma YearFromDay_upper: "d < DayFromYear (YearFromDay d + 1)"
  using YearFromDay_bounds by blast

lemma DayWithinYear_range:
  "0 \<le> DayWithinYear t \<and> DayWithinYear t < 365 + (if InLeapYear (getFullYear t) then 1 else 0)"
  using YearFromDay_lower [of "Day t"] YearFromDay_upper [of "Day t"]
    DayFromYear_Suc [of "YearFromDay (Day t)"]
  by (simp add: DayWithinYear_def getFullYear_def)

lemma MonthFromDay_range: "0 \<le> MonthFromDay l d \<and> MonthFromDay l d \<le> 11"
  by (simp add: MonthFromDay_def)

lemma getMonth_range: "0 \<le> getMonth t \<and> getMonth t \<le> 11"
  by (simp add: getMonth_def MonthFromDay_range)

lemma MakeDay_parts: "MakeDay (getFullYear t) (getMonth t) (getDate t + k) = Day t + k"
proof -
  have "getMonth t div 12 = 0" "getMonth t mod 12 = getMonth t"
    using getMonth_range [of t] by simp_all
  then show ?thesis
    by (simp add: MakeDay_def getDate_def DayWithinYear_def)
qed

lemma startOfDay_eq: "startOfDay t = Day t * msPerDay"
  using MakeDay_parts [of t 0] by (simp add: startOfDay_def newDate_def)

lemma tomorrow_eq: "tomorrow t = (Day t + 1) * msPerDay"
  using MakeDay_parts [of t 1] by (simp add: tomorrow_def newDate_def)

lemma Day_startOfDay: "Day (startOfDay t) = Day t"
  by (simp add: startOfDay_eq Day_def msPerDay_def)

lemma startOfDay_idem: "startOfDay (startOfDay t) = startOfDay t"
  by (simp add: startOfDay_eq Day_def msPerDay_def)

lemma startOfDay_le: "startOfDay t \<le> t"
  by (simp add: startOfDay_eq Day_def msPerDay_def)

lemma tomorrow_bounds: "t < tomorrow t \<and> tomorrow t \<le> t + msPerDay"
  unfolding tomorrow_eq Day_def msPerDay_def by (simp add: algebra_simps) linarith

lemma hoursUntilDailyReset_range: "1 \<le> hoursUntilDailyReset t \<and> hoursUntilDailyReset t \<le> 24"
  using tomorrow_bounds [of t]
  unfolding hoursUntilDailyReset_def ceilDiv_def msPerHour_def msPerDay_def by linarith

lemma monthStart_values:
  "monthStart l 0 = 0" "monthStart l 1 = 31"
  "monthStart l 2 = 59 + (if l then 1 else 0)" "monthStart l 3 = 90 + (if l then 1 else 0)"
  "monthStart l 4 = 120 + (if l then 1 else 0)" "monthStart l 5 = 151 + (if l then 1 else 0)"
  "monthStart l 6 = 181 + (if l then 1 else 0)" "monthStart l 7 = 212 + (if l then 1 else 0)"
  "monthStart l 8 = 243 + (if l then 1 else 0)" "monthStart l 9 = 273 + (if l then 1 else 0)"
  "monthStart l 10 = 304 + (if l then 1 else 0)" "monthStart l 11 = 334 + (if l then 1 else 0)"
  "monthStart l 12 = 365 + (if l then 1 else 0)"
  by (simp_all add: monthStart_def)

lemma month_bounds:
  assumes "0 \<le> d" "d < 365 + (if l then 1 else 0)"
  shows "monthStart l (MonthFromDay l d) \<le> d \<and> d < monthStart l (MonthFromDay l d + 1)
     \<and> monthStart l (MonthFromDay l d + 1) \<le> monthStart l (MonthFromDay l d) + 31"
proof -
  define L :: int where "L = (if l then 1 else 0)"
  have L01: "L = 0 \<or> L = 1" by (simp add: L_def)
  note ms = monthStart_values [of l, folded L_def]
  have M: "MonthFromDay l d =
     (if d < 31 then 0 else if d < 59 + L then 1 else if d < 90 + L then 2
      else if d < 120 + L then 3 else if d < 151 + L then 4 else if d < 181 + L then 5
      else if d < 212 + L then 6 else if d < 243 + L then 7 else if d < 273 + L then 8
      else if d < 304 + L then 9 else if d < 334 + L then 10 else 11)"
    by (simp only: MonthFromDay_def ms)
  show ?thesis
    unfolding M using assms [folded L_def] L01 by (auto simp add: ms)
qed

lemma getMonth_bounds:
  "monthStart (InLeapYear (getFullYear t)) (getMonth t) \<le> DayWithinYear t \<and>
   DayWithinYear t < monthStart (InLeapYear (getFullYear t)) (getMonth t + 1) \<and>
   monthStart (InLeapYear (getFullYear t)) (getMonth t + 1)
     \<le> monthStart (InLeapYear (getFullYear t)) (getMonth t) + 31"
  unfolding getMonth_def
  using DayWithinYear_range [of t] by (intro month_bounds) simp_all

lemma MakeDay_nextMonth:
  "Day t < MakeDay (getFullYear t) (getMonth t + 1) 1 \<and>
   MakeDay (getFullYear t) (getMonth t + 1) 1 \<le> Day t + 31"
proof (cases "getMonth t = 11")
  case True
  have a: "MakeDay (getFullYear t) (getMonth t + 1) 1 = DayFromYear (getFullYear t + 1)"
    using True by (simp add: MakeDay_def monthStart_def)
  have "monthStart (InLeapYear (getFullYear t)) 11 \<le> DayWithinYear t"
    using getMonth_bounds [of t] True by simp
  then show ?thesis
    using a DayWithinYear_range [of t] DayFromYear_Suc [of "getFullYear t"]
    by (auto simp add: DayWithinYear_def monthStart_def split: if_splits)
next
  case False
  then have m: "(getMonth t + 1) div 12 = 0" "(getMonth t + 1) mod 12 = getMonth t + 1"
    using getMonth_range [of t] by simp_all
  have "MakeDay (getFullYear t) (getMonth t + 1) 1 =
     DayFromYear (getFullYear t) + monthStart (InLeapYear (getFullYear t)) (getMonth t + 1)"
    by (simp add: MakeDay_def Let_def m)
  then show ?thesis
    using getMonth_bounds [of t] by (simp add: DayWithinYear_def)
qed

lemma nextMonth_bounds: "t < nextMonth t \<and> nextMonth t \<le> t + 31 * msPerDay"
  using MakeDay_nextMonth [of t]
  unfolding nextMonth_def newDate_def Day_def msPerDay_def by linarith

lemma daysUntilMonthlyReset_range: "1 \<le> daysUntilMonthlyReset t \<and> daysUntilMonthlyReset t \<le> 31"
  using nextMonth_bounds [of t]
  unfolding daysUntilMonthlyReset_def ceilDiv_def msPerDay_def by linarith

lemma DayFromYear_strict_mono: "a < b \<Longrightarrow> DayFromYear a < DayFromYear b"
  using DayFromYear_upper [of a] DayFromYear_lower [of b] by linarith

lemma DayFromYear_mono: "a \<le> b \<Longrightarrow> DayFromYear a \<le> DayFromYear b"
  using DayFromYear_strict_mono [of a b] by (cases "a = b") simp_all

lemma YearFromDay_unique:
  assumes "DayFromYear y \<le> d" "d < DayFromYear (y + 1)"
  shows "YearFromDay d = y"
proof (rule ccontr)
  assume n: "YearFromDay d \<noteq> y"
  show False
  proof (cases "YearFromDay d < y")
    case True
    then have "DayFromYear (YearFromDay d + 1) \<le> DayFromYear y"
      by (intro DayFromYear_mono) simp
    then show False using YearFromDay_upper [of d] assms(1) by linarith
  next
    case False
    then have "DayFromYear (y + 1) \<le> DayFromYear (YearFromDay d)"
      using n by (intro DayFromYear_mono) simp
    then show False using YearFromDay_lower [of d] assms(2) by linarith
  qed
qed

lemma monthStart_strict:
  assumes "0 \<le> m" "m \<le> 11"
  shows "monthStart l m < monthStart l (m + 1)"
proof -
  consider "m = 0" | "m = 1" | "m = 2" | "m = 3" | "m = 4" | "m = 5" | "m = 6" | "m = 7"
    | "m = 8" | "m = 9" | "m = 10" | "m = 11"
    using assms by atomize_elim arith
  then show ?thesis by cases (simp_all add: monthStart_values)
qed

lemma monthStart_below_year:
  assumes "0 \<le> m" "m \<le> 11"
  shows "monthStart l m < 365 + (if l then 1 else 0)"
proof -
  consider "m = 0" | "m = 1" | "m = 2" | "m = 3" | "m = 4" | "m = 5" | "m = 6" | "m = 7"
    | "m = 8" | "m = 9" | "m = 10" | "m = 11"
    using assms by atomize_elim arith
  then show ?thesis by cases (simp_all add: monthStart_values)
qed

lemma MonthFromDay_unique:
  assumes "0 \<le> m" "m \<le> 11" "monthStart l m \<le> d" "d < monthStart l (m + 1)"
  shows "MonthFromDay l d = m"
proof -
  define L :: int where "L = (if l then 1 else 0)"
  note ms = monthStart_values [of l, folded L_def]
  have M: "MonthFromDay l d =
     (if d < 31 then 0 else if d < 59 + L then 1 else if d < 90 + L then 2
      else if d < 120 + L then 3 else if d < 151 + L then 4 else if d < 181 + L then 5
      else if d < 212 + L then 6 else if d < 243 + L then 7 else if d < 273 + L then 8
      else if d < 304 + L then 9 else if d < 334 + L then 10 else 11)"
    by (simp only: MonthFromDay_def ms)
  have L01: "L = 0 \<or> L = 1" by (simp add: L_def)
  consider "m = 0" | "m = 1" | "m = 2" | "m = 3" | "m = 4" | "m = 5" | "m = 6" | "m = 7"
    | "m = 8" | "m = 9" | "m = 10" | "m = 11"
    using assms(1,2) by atomize_elim arith
  then show ?thesis
    using assms(3,4) L01 unfolding M by cases (auto simp add: ms)
qed

lemma MakeDay_next:
  "MakeDay (getFullYear t) (getMonth t + 1) 1 =
     DayFromYear (getFullYear t) + monthStart (InLeapYear (getFullYear t)) (getMonth t + 1)"
proof (cases "getMonth t = 11")
  case True
  then show ?thesis
    using DayFromYear_Suc [of "getFullYear t"]
    by (simp add: MakeDay_def monthStart_def)
next
  case False
  then have m: "(getMonth t + 1) div 12 = 0" "(getMonth t + 1) mod 12 = getMonth t + 1"
    using getMonth_range [of t] by simp_all
  show ?thesis by (simp add: MakeDay_def Let_def m)
qed

lemma Day_nextMonth: "Day (nextMonth t) = MakeDay (getFullYear t) (getMonth t + 1) 1"
  by (simp add: nextMonth_def newDate_def Day_def msPerDay_def)

lemma Day_mono: "s \<le> t \<Longrightarrow> Day s \<le> Day t"
  by (simp add: Day_def msPerDay_def zdiv_mono1)

lemma Day_less: "s < k * msPerDay \<Longrightarrow> Day s < k"
  unfolding Day_def msPerDay_def by linarith

lemma Day_less_newDate: "s < newDate y m d \<Longrightarrow> Day s < MakeDay y m d"
  unfolding newDate_def by (rule Day_less)

lemma same_month_until_nextMonth:
  assumes "t \<le> s" "s < nextMonth t"
  shows "getFullYear s = getFullYear t \<and> getMonth s = getMonth t"
proof -
  define y where "y = getFullYear t"
  define l where "l = InLeapYear y"
  define m where "m = getMonth t"
  have b: "monthStart l m \<le> DayWithinYear t" "monthStart l (m + 1) \<le> monthStart l m + 31"
    using getMonth_bounds [of t] by (simp_all add: y_def l_def m_def)
  have mr: "0 \<le> m" "m \<le> 11" using getMonth_range [of t] by (simp_all add: m_def)
  have lo: "DayFromYear y + monthStart l m \<le> Day s"
    using b(1) Day_mono [OF assms(1)] by (simp add: DayWithinYear_def y_def)
  have hi: "Day s < DayFromYear y + monthStart l (m + 1)"
    using Day_less_newDate [OF assms(2) [unfolded nextMonth_def]] MakeDay_next [of t]
    by (simp add: y_def l_def m_def)
  have s0: "0 \<le> monthStart l m" using mr by (simp add: monthStart_def)
  have s1: "monthStart l (m + 1) \<le> 365 + (if l then 1 else 0)"
    using mr by (simp add: monthStart_def)
  have "DayFromYear (y + 1) = DayFromYear y + 365 + (if l then 1 else 0)"
    by (simp add: DayFromYear_Suc l_def)
  then have yr: "YearFromDay (Day s) = y"
    using lo hi s0 s1 by (intro YearFromDay_unique) linarith+
  then have ys: "getFullYear s = y" by (simp add: getFullYear_def)
  have "MonthFromDay l (Day s - DayFromYear y) = m"
    using lo hi mr by (intro MonthFromDay_unique) linarith+
  then have "getMonth s = m"
    by (simp add: getMonth_def DayWithinYear_def ys l_def)
  then show ?thesis using ys by (simp add: y_def m_def)
qed

lemma nextMonth_first_day:
  "getDate (nextMonth t) = 1 \<and> getMonth (nextMonth t) = (getMonth t + 1) mod 12 \<and>
   getFullYear (nextMonth t) = getFullYear t + (getMonth t + 1) div 12"
proof -
  define y where "y = getFullYear t"
  define l where "l = InLeapYear y"
  define m where "m = getMonth t"
  have mr: "0 \<le> m" "m \<le> 11" using getMonth_range [of t] by (simp_all add: m_def)
  have D: "Day (nextMonth t) = DayFromYear y + monthStart l (m + 1)"
    by (simp add: Day_nextMonth MakeDay_next y_def l_def m_def)
  have S: "DayFromYear (y + 1) = DayFromYear y + 365 + (if l then 1 else 0)"
    by (simp add: DayFromYear_Suc l_def)
  show ?thesis
  proof (cases "m = 11")
    case True
    have d: "Day (nextMonth t) = DayFromYear (y + 1)"
      using D S True by (simp add: monthStart_def)
    have "DayFromYear (y + 1) < DayFromYear (y + 1 + 1)"
      by (intro DayFromYear_strict_mono) simp
    then have yr: "getFullYear (nextMonth t) = y + 1"
      unfolding getFullYear_def d by (intro YearFromDay_unique) simp_all
    have w: "DayWithinYear (nextMonth t) = 0"
      by (simp add: DayWithinYear_def yr d)
    have mo: "getMonth (nextMonth t) = 0"
      by (simp add: getMonth_def w MonthFromDay_def monthStart_def)
    have "getDate (nextMonth t) = 1"
      by (simp add: getDate_def w mo monthStart_def)
    then show ?thesis using yr mo True by (simp add: y_def m_def)
  next
    case False
    then have m10: "m \<le> 10" using mr by simp
    have s0: "0 \<le> monthStart l (m + 1)" using mr by (simp add: monthStart_def)
    have s1: "monthStart l (m + 1) < 365 + (if l then 1 else 0)"
      using mr m10 by (intro monthStart_below_year) simp_all
    have yr: "getFullYear (nextMonth t) = y"
      unfolding getFullYear_def D using S s0 s1 by (intro YearFromDay_unique) linarith+
    have w: "DayWithinYear (nextMonth t) = monthStart l (m + 1)"
      by (simp add: DayWithinYear_def yr D)
    have "monthStart l (m + 1) < monthStart l (m + 1 + 1)"
      using mr m10 by (intro monthStart_strict) simp_all
    then have "MonthFromDay l (monthStart l (m + 1)) = m + 1"
      using mr m10 by (intro MonthFromDay_unique) simp_all
    then have mo: "getMonth (nextMonth t) = m + 1"
      by (simp add: getMonth_def w yr l_def)
    have "getDate (nextMonth t) = 1"
      by (simp add: getDate_def w mo yr l_def)
    moreover have "(m + 1) mod 12 = m + 1" "(m + 1) div 12 = 0" using mr m10 by simp_all
    ultimately show ?thesis using yr mo by (simp add: y_def m_def)
  qed
qed

lemma same_day_until_tomorrow:
  assumes "t \<le> s" "s < tomorrow t"
  shows "Day s = Day t"
  using Day_mono [OF assms(1)] Day_less [OF assms(2) [unfolded tomorrow_eq]] by linarith

lemma Day_tomorrow: "Day (tomorrow t) = Day t + 1"
  by (simp add: tomorrow_eq Day_def msPerDay_def)

section \<open>The lazy resets and the eligibility check\<close>

lemma sameDay_startOfDay: "Day a = Day b \<Longrightarrow> startOfDay a = startOfDay b"
  by (simp add: startOfDay_eq)

lemma startOfDay_less_iff: "startOfDay a < startOfDay b \<longleftrightarrow> Day a < Day b"
  by (simp add: startOfDay_eq msPerDay_def)

lemma resetDaily_cases:
  "resetDailyDownloadsIfNeeded now u =
     (if (case dailyDownloadDate u of None \<Rightarrow> True | Some a \<Rightarrow> Day a < Day now)
      then (dailyDownloads u > 0,
            u\<lparr>dailyDownloads := 0, dailyDownloadDate := Some (startOfDay now)\<rparr>)
      else (False, u))"
  by (cases "dailyDownloadDate u")
     (simp_all add: resetDailyDownloadsIfNeeded_def Let_def startOfDay_less_iff)

lemma resetMonthly_cases:
  "resetMonthlyDownloadsIfNeeded now u =
     (if monthlyDownloadMonth u \<noteq> monthToken now
      then (monthlyDownloads u > 0,
            u\<lparr>monthlyDownloads := 0, monthlyDownloadMonth := monthToken now\<rparr>)
      else (False, u))"
  by (simp add: resetMonthlyDownloadsIfNeeded_def Let_def)

lemma rolled_fixed [simp]:
  "isVerified (rolled now u) = isVerified u"
  "subscription (rolled now u) = subscription u"
  "premiumExpiry (rolled now u) = premiumExpiry u"
  "totalDownloads (rolled now u) = totalDownloads u"
  "downloads (rolled now u) = downloads u"
  "downloadStats (rolled now u) = downloadStats u"
  "createdAt (rolled now u) = createdAt u"
  "lastActivity (rolled now u) = lastActivity u"
  by (simp_all add: rolled_def resetDaily_cases resetMonthly_cases split: option.splits)

lemma rolled_month [simp]: "monthlyDownloadMonth (rolled now u) = monthToken now"
  by (simp add: rolled_def resetDaily_cases resetMonthly_cases split: option.splits)

lemma rolled_monthly:
  "monthlyDownloads (rolled now u) =
     (if monthlyDownloadMonth u = monthToken now then monthlyDownloads u else 0)"
  by (simp add: rolled_def resetDaily_cases resetMonthly_cases split: option.splits)

lemma rolled_daily:
  "dailyDownloads (rolled now u) =
     (case dailyDownloadDate u of
        None \<Rightarrow> 0
      | Some a \<Rightarrow> if Day a < Day now then 0 else dailyDownloads u)"
  by (simp add: rolled_def resetDaily_cases resetMonthly_cases split: option.splits)

lemma rolled_anchor:
  "\<exists>a. dailyDownloadDate (rolled now u) = Some a \<and> Day now \<le> Day a"
  by (simp add: rolled_def resetDaily_cases resetMonthly_cases Day_startOfDay
      split: option.splits)

lemma resetDaily_rolled:
  "resetDailyDownloadsIfNeeded now (rolled now u) = (False, rolled now u)"
  using rolled_anchor [of now u] by (auto simp add: resetDaily_cases)

lemma resetMonthly_rolled:
  "resetMonthlyDownloadsIfNeeded now (rolled now u) = (False, rolled now u)"
  by (simp add: resetMonthly_cases)

lemma rolled_idem [simp]: "rolled now (rolled now u) = rolled now u"
  by (simp add: rolled_def [of now "rolled now u"] resetDaily_rolled resetMonthly_rolled)

lemma isActive_rolled [simp]: "isActive now (rolled now u) = isActive now u"
  by (simp add: isActive_def isPremium_def)

lemma isPremium_rolled [simp]: "isPremium (rolled now u) = isPremium u"
  by (simp add: isPremium_def)

lemma monthlyLimit_rolled [simp]: "monthlyLimit now (rolled now u) = monthlyLimit now u"
  by (simp add: monthlyLimit_def)

lemma canDownload_unverified:
  "\<not> isVerified u \<Longrightarrow> canDownload now u =
     (\<lparr>r_canDownload = False,
       r_reason = ''Email not verified - please check your email and verify your account'',
       r_subscription = subscription u,
       r_daily = \<lparr>used = 0, limit = 15, remaining = 15, untilReset = None\<rparr>,
       r_monthly = \<lparr>used = 0, limit = 350, remaining = 350, untilReset = None\<rparr>,
       r_total = totalDownloads u,
       r_requiresVerification = True,
       r_subscriptionStatus = \<lparr>active = False, expiry = None, daysLeft = 0\<rparr>,
       r_resetInfo = None\<rparr>, u)"
  by (simp add: canDownload_def)

lemma canDownload_snd: "isVerified u \<Longrightarrow> snd (canDownload now u) = rolled now u"
  by (simp add: canDownload_def rolled_def Let_def case_prod_beta)

lemma canDownload_daily:
  "isVerified u \<Longrightarrow> r_daily (fst (canDownload now u)) =
     \<lparr>used = dailyDownloads (rolled now u), limit = 15,
      remaining = max 0 (15 - dailyDownloads (rolled now u)),
      untilReset = Some (hoursUntilDailyReset now)\<rparr>"
  by (simp add: canDownload_def rolled_def Let_def dailyLimit_def case_prod_beta)

lemma canDownload_monthly:
  "isVerified u \<Longrightarrow> r_monthly (fst (canDownload now u)) =
     \<lparr>used = monthlyDownloads (rolled now u), limit = monthlyLimit now u,
      remaining = max 0 (monthlyLimit now u - monthlyDownloads (rolled now u)),
      untilReset = Some (daysUntilMonthlyReset now)\<rparr>"
  using monthlyLimit_rolled [of now u]
  by (simp add: canDownload_def rolled_def Let_def case_prod_beta)

lemma canDownload_can:
  "r_canDownload (fst (canDownload now u)) \<longleftrightarrow>
     isVerified u \<and> dailyDownloads (rolled now u) < 15 \<and>
     monthlyDownloads (rolled now u) < monthlyLimit now u"
  using monthlyLimit_rolled [of now u]
  by (auto simp add: canDownload_def rolled_def Let_def dailyLimit_def case_prod_beta)

lemma canDownload_reason:
  "isVerified u \<Longrightarrow> r_reason (fst (canDownload now u)) =
     (if 15 \<le> dailyDownloads (rolled now u)
      then dailyReason (dailyDownloads (rolled now u)) 15 (hoursUntilDailyReset now)
      else if monthlyLimit now u \<le> monthlyDownloads (rolled now u)
      then monthlyReason (monthlyDownloads (rolled now u)) (monthlyLimit now u)
             (daysUntilMonthlyReset now) (subscription u = Free)
      else ''Within limits'')"
  using monthlyLimit_rolled [of now u] isActive_rolled [of now u] isPremium_rolled [of now u]
  apply (simp add: canDownload_def rolled_def Let_def dailyLimit_def case_prod_beta)
  apply (auto simp add: isActive_def isPremium_def)
  apply (cases "subscription u"; simp)+
  done

lemmas calendar_defs = Day_def msPerDay_def msPerHour_def getFullYear_def getMonth_def
  getDate_def DayWithinYear_def YearFromDay_def DayFromYear_def InLeapYear_def
  MonthFromDay_def monthStart_def MakeDay_def newDate_def startOfDay_def tomorrow_def
  nextMonth_def hoursUntilDailyReset_def daysUntilMonthlyReset_def ceilDiv_def
  monthToken_def showInt_def padStart2_def digits.simps

lemmas example_defs = exNow_def exUser_def exStats_def staleIdleUser_def staleBusyUser_def
  unverifiedUser_def expiredPremiumUser_def
  bothExhaustedUser_def monthlyExhaustedUser_def
  lightUser_def nearLimitUser_def expiringPremiumUser_def exProduct_def exReq_def dbOf_def

lemma canDownload_unverifiedUser:
  "canDownload exNow unverifiedUser =
     (\<lparr>r_canDownload = False,
       r_reason = ''Email not verified - please check your email and verify your account'',
       r_subscription = Free,
       r_daily = \<lparr>used = 0, limit = 15, remaining = 15, untilReset = None\<rparr>,
       r_monthly = \<lparr>used = 0, limit = 350, remaining = 350, untilReset = None\<rparr>,
       r_total = 200,
       r_requiresVerification = True,
       r_subscriptionStatus = \<lparr>active = False, expiry = None, daysLeft = 0\<rparr>,
       r_resetInfo = None\<rparr>, unverifiedUser)"
  by (simp add: canDownload_unverified example_defs)

lemma rolled_exUser: "rolled exNow exUser = exUser"
  by (simp add: rolled_def resetDaily_cases resetMonthly_cases Day_def msPerDay_def
      calendar_defs example_defs Let_def)

lemma dailyReason_prefix: "prefix ''Daily limit reached'' (dailyReason a b c)"
  by (simp add: dailyReason_def)

lemma monthlyReason_prefix: "prefix ''Monthly limit reached'' (monthlyReason a b c d)"
  by (simp add: monthlyReason_def)

lemma rolled_exhausted:
  "rolled exNow bothExhaustedUser = bothExhaustedUser"
  "rolled exNow monthlyExhaustedUser = monthlyExhaustedUser"
  by (simp_all add: rolled_def resetDaily_cases resetMonthly_cases Day_def msPerDay_def
      calendar_defs example_defs Let_def)

lemma exNow_reset_times: "hoursUntilDailyReset exNow = 12" "daysUntilMonthlyReset exNow = 4"
  by (simp_all add: calendar_defs exNow_def Let_def)

lemmas user_defs = exUser_def exStats_def staleIdleUser_def staleBusyUser_def
  unverifiedUser_def expiredPremiumUser_def bothExhaustedUser_def monthlyExhaustedUser_def
  lightUser_def nearLimitUser_def expiringPremiumUser_def

section \<open>Claims about the reset policy and the evaluator\<close>

text \<open>
  C4: \<open>resetDailyDownloadsIfNeeded\<close> is idempotent within a calendar day. After a first call
  at \<open>t1\<close>, a second call at any instant \<open>t2\<close> of the same calendar day returns false and
  leaves the document, so also the daily counter and the daily anchor, as the first call
  left it: the reset happens at most once.
\<close>

theorem resetDaily_idempotent:
  assumes "Day t2 = Day t1"
  shows "resetDailyDownloadsIfNeeded t2 (snd (resetDailyDownloadsIfNeeded t1 u))
           = (False, snd (resetDailyDownloadsIfNeeded t1 u))"
  using assms by (simp add: resetDaily_cases Day_startOfDay split: option.splits)

theorem resetDaily_idempotent_witness:
  "Day (exNow + 3600000) = Day exNow \<and>
   resetDailyDownloadsIfNeeded (exNow + 3600000)
       (snd (resetDailyDownloadsIfNeeded exNow (exUser\<lparr>dailyDownloadDate := Some 1706270000000\<rparr>)))
     = (False, exUser\<lparr>dailyDownloads := 0, dailyDownloadDate := Some 1706400000000\<rparr>)"
proof -
  have d: "Day (exNow + 3600000) = Day exNow" by (simp add: Day_def exNow_def msPerDay_def)
  have r: "snd (resetDailyDownloadsIfNeeded exNow (exUser\<lparr>dailyDownloadDate := Some 1706270000000\<rparr>))
     = exUser\<lparr>dailyDownloads := 0, dailyDownloadDate := Some 1706400000000\<rparr>"
    by (simp add: resetDaily_cases startOfDay_eq Day_def exNow_def msPerDay_def exUser_def)
  show ?thesis
    using d resetDaily_idempotent [OF d, of "exUser\<lparr>dailyDownloadDate := Some 1706270000000\<rparr>"]
    unfolding r by simp
qed

text \<open>
  C5, as amended: when the anchor's calendar day precedes the day of \<open>now\<close> (or there is no
  anchor), the call sets the daily counter to 0 and the anchor to the start of today; the
  boolean it returns is true exactly when the counter it cleared was greater than 0. When
  the anchor's day does not precede today it changes nothing and returns false.
\<close>

theorem resetDaily_when_stale:
  "((case dailyDownloadDate u of None \<Rightarrow> True | Some a \<Rightarrow> Day a < Day now) \<longrightarrow>
      resetDailyDownloadsIfNeeded now u =
        (0 < dailyDownloads u,
         u\<lparr>dailyDownloads := 0, dailyDownloadDate := Some (startOfDay now)\<rparr>)) \<and>
   ((case dailyDownloadDate u of None \<Rightarrow> False | Some a \<Rightarrow> Day now \<le> Day a) \<longrightarrow>
      resetDailyDownloadsIfNeeded now u = (False, u)) \<and>
   startOfDay now = Day now * msPerDay"
  by (simp add: resetDaily_cases startOfDay_eq split: option.splits)

theorem resetDaily_when_stale_witness:
  "Day 1706270000000 < Day exNow \<and>
   resetDailyDownloadsIfNeeded exNow staleBusyUser =
     (True, staleBusyUser\<lparr>dailyDownloads := 0, dailyDownloadDate := Some 1706400000000\<rparr>) \<and>
   Day exNow \<le> Day 1706400000000 \<and>
   resetDailyDownloadsIfNeeded exNow exUser = (False, exUser)"
proof -
  have a: "dailyDownloadDate staleBusyUser = Some 1706270000000" "dailyDownloads staleBusyUser = 15"
    "dailyDownloadDate exUser = Some 1706400000000"
    by (simp_all add: example_defs)
  have d: "Day 1706270000000 < Day exNow" "Day exNow \<le> Day 1706400000000"
    "Day exNow * msPerDay = 1706400000000"
    by (simp_all add: Day_def msPerDay_def exNow_def)
  show ?thesis
    using resetDaily_when_stale [where u = staleBusyUser and now = exNow]
      resetDaily_when_stale [where u = exUser and now = exNow]
    by (simp add: a d)
qed

text \<open>
  C5 as stated fails: the result is not true on every call that performs the reset. For an
  account whose anchor is two days old and whose daily counter is already 0, the call moves
  the anchor to today and returns false.
\<close>

theorem resetDaily_zero_counter_counterexample:
  "Day 1706270000000 < Day exNow \<and>
   dailyDownloadDate staleIdleUser = Some 1706270000000 \<and>
   resetDailyDownloadsIfNeeded exNow staleIdleUser =
     (False, staleIdleUser\<lparr>dailyDownloads := 0, dailyDownloadDate := Some 1706400000000\<rparr>)"
  by (simp add: resetDaily_cases startOfDay_eq Day_def msPerDay_def example_defs)

text \<open>
  C6: the effective monthly limit is the premium value 500 exactly when the subscription is
  premium and the expiry lies strictly in the future; otherwise, in particular for a premium
  account whose expiry has passed, it is the free value 350. It is the limit that
  \<open>canDownload\<close> reports for a verified account.
\<close>

theorem effective_monthly_limit:
  "(monthlyLimit now u = 500 \<longleftrightarrow>
      subscription u = Premium \<and> (\<exists>e. premiumExpiry u = Some e \<and> now < e)) \<and>
   (monthlyLimit now u \<noteq> 500 \<longrightarrow> monthlyLimit now u = 350) \<and>
   (isVerified u \<longrightarrow> limit (r_monthly (fst (canDownload now u))) = monthlyLimit now u)"
  by (auto simp add: monthlyLimit_def isActive_def isPremium_def canDownload_monthly
      split: option.splits)

theorem effective_monthly_limit_witness:
  "subscription expiredPremiumUser = Premium \<and> premiumExpiry expiredPremiumUser = Some 1705000000000 \<and>
   1705000000000 < exNow \<and> monthlyLimit exNow expiredPremiumUser = 350 \<and>
   isVerified expiredPremiumUser \<and>
   limit (r_monthly (fst (canDownload exNow expiredPremiumUser))) = 350 \<and>
   monthlyLimit 1704000000000 expiredPremiumUser = 500"
proof -
  have a: "subscription expiredPremiumUser = Premium"
    "premiumExpiry expiredPremiumUser = Some 1705000000000" "isVerified expiredPremiumUser"
    by (simp_all add: example_defs)
  show ?thesis
    using effective_monthly_limit [where now = exNow and u = expiredPremiumUser]
      effective_monthly_limit [where now = 1704000000000 and u = expiredPremiumUser]
    by (simp add: a exNow_def)
qed

text \<open>
  C7, as amended: for every verified account and instant, \<open>canDownload\<close> reports
  remaining = max(0, limit - used) for the daily and the monthly window, and its
  eligibility boolean is true exactly when both remaining values are greater than 0.
\<close>

theorem canDownload_windows:
  assumes "isVerified u"
  shows "remaining (r_daily (fst (canDownload now u))) =
           max 0 (limit (r_daily (fst (canDownload now u)))
                    - used (r_daily (fst (canDownload now u)))) \<and>
         remaining (r_monthly (fst (canDownload now u))) =
           max 0 (limit (r_monthly (fst (canDownload now u)))
                    - used (r_monthly (fst (canDownload now u)))) \<and>
         (r_canDownload (fst (canDownload now u)) \<longleftrightarrow>
            0 < remaining (r_daily (fst (canDownload now u))) \<and>
            0 < remaining (r_monthly (fst (canDownload now u))))"
  using assms by (auto simp add: canDownload_daily canDownload_monthly canDownload_can)

theorem canDownload_windows_witness:
  "isVerified exUser \<and>
   remaining (r_daily (fst (canDownload exNow exUser))) = 1 \<and>
   remaining (r_monthly (fst (canDownload exNow exUser))) = 250 \<and>
   r_canDownload (fst (canDownload exNow exUser))"
proof -
  have v: "isVerified exUser" by (simp add: example_defs)
  have m: "monthlyLimit exNow exUser = 350"
    by (simp add: monthlyLimit_def isActive_def isPremium_def example_defs)
  have c: "dailyDownloads exUser = 14" "monthlyDownloads exUser = 100"
    by (simp_all add: example_defs)
  show ?thesis
    using v canDownload_windows [OF v, of exNow]
    by (simp add: canDownload_daily canDownload_monthly rolled_exUser m c)
qed

text \<open>
  C7 as stated, for every account, fails on the verification guard: an unverified account
  is reported ineligible although both reported remaining values are greater than 0.
\<close>

theorem canDownload_windows_counterexample:
  "\<not> r_canDownload (fst (canDownload exNow unverifiedUser)) \<and>
   0 < remaining (r_daily (fst (canDownload exNow unverifiedUser))) \<and>
   0 < remaining (r_monthly (fst (canDownload exNow unverifiedUser)))"
  by (simp add: canDownload_unverifiedUser)

text \<open>
  C8, as amended: whenever \<open>canDownload\<close> finds a verified account ineligible, the reason
  names the first exhausted gate, the daily one before the monthly one: if the daily window
  is exhausted the reason is the daily message (also when the monthly window is exhausted
  too), otherwise the monthly window is exhausted and the reason is the monthly message. The
  daily message carries the hours from \<open>now\<close> to \<open>tomorrow now\<close>, rounded up (between 1
  and 24), where \<open>tomorrow now\<close> is the midnight that ends the calendar day of \<open>now\<close>. The
  monthly message carries the days from \<open>now\<close> to \<open>nextMonth now\<close>, rounded up (between 1
  and 31), where \<open>nextMonth now\<close> is the midnight that starts the first day of the following
  month: every instant from \<open>now\<close> up to it lies in the year and month of \<open>now\<close>.
\<close>

theorem canDownload_reason_gate:
  assumes "isVerified u" and "\<not> r_canDownload (fst (canDownload now u))"
  shows "(remaining (r_daily (fst (canDownload now u))) \<le> 0 \<longrightarrow>
            r_reason (fst (canDownload now u)) =
              dailyReason (used (r_daily (fst (canDownload now u)))) 15
                (hoursUntilDailyReset now) \<and>
            prefix ''Daily limit reached'' (r_reason (fst (canDownload now u)))) \<and>
         (0 < remaining (r_daily (fst (canDownload now u))) \<longrightarrow>
            remaining (r_monthly (fst (canDownload now u))) \<le> 0 \<and>
            r_reason (fst (canDownload now u)) =
              monthlyReason (used (r_monthly (fst (canDownload now u))))
                (limit (r_monthly (fst (canDownload now u)))) (daysUntilMonthlyReset now)
                (subscription u = Free) \<and>
            prefix ''Monthly limit reached'' (r_reason (fst (canDownload now u)))) \<and>
         hoursUntilDailyReset now = ceilDiv (tomorrow now - now) msPerHour \<and>
         tomorrow now = (Day now + 1) * msPerDay \<and>
         (\<forall>s. now \<le> s \<and> s < tomorrow now \<longrightarrow> Day s = Day now) \<and>
         1 \<le> hoursUntilDailyReset now \<and> hoursUntilDailyReset now \<le> 24 \<and>
         daysUntilMonthlyReset now = ceilDiv (nextMonth now - now) msPerDay \<and>
         nextMonth now = Day (nextMonth now) * msPerDay \<and>
         getDate (nextMonth now) = 1 \<and>
         getMonth (nextMonth now) = (getMonth now + 1) mod 12 \<and>
         (\<forall>s. now \<le> s \<and> s < nextMonth now \<longrightarrow>
              getFullYear s = getFullYear now \<and> getMonth s = getMonth now) \<and>
         1 \<le> daysUntilMonthlyReset now \<and> daysUntilMonthlyReset now \<le> 31"
proof -
  have g: "15 \<le> dailyDownloads (rolled now u) \<or>
           monthlyLimit now u \<le> monthlyDownloads (rolled now u)"
    using assms by (auto simp add: canDownload_can)
  have daily: "remaining (r_daily (fst (canDownload now u))) \<le> 0 \<longleftrightarrow>
        15 \<le> dailyDownloads (rolled now u)"
    using assms(1) by (auto simp add: canDownload_daily)
  have monthly: "remaining (r_monthly (fst (canDownload now u))) \<le> 0 \<longleftrightarrow>
        monthlyLimit now u \<le> monthlyDownloads (rolled now u)"
    using assms(1) by (auto simp add: canDownload_monthly)
  have h: "hoursUntilDailyReset now = ceilDiv (tomorrow now - now) msPerHour"
    by (simp add: hoursUntilDailyReset_def)
  have t: "\<forall>s. now \<le> s \<and> s < tomorrow now \<longrightarrow> Day s = Day now"
    using same_day_until_tomorrow by blast
  have d: "daysUntilMonthlyReset now = ceilDiv (nextMonth now - now) msPerDay"
    by (simp add: daysUntilMonthlyReset_def)
  have n: "nextMonth now = Day (nextMonth now) * msPerDay"
    by (simp add: Day_nextMonth) (simp add: nextMonth_def newDate_def)
  have sm: "\<forall>s. now \<le> s \<and> s < nextMonth now \<longrightarrow>
              getFullYear s = getFullYear now \<and> getMonth s = getMonth now"
    using same_month_until_nextMonth by blast
  have A: "remaining (r_daily (fst (canDownload now u))) \<le> 0 \<longrightarrow>
            r_reason (fst (canDownload now u)) =
              dailyReason (used (r_daily (fst (canDownload now u)))) 15
                (hoursUntilDailyReset now) \<and>
            prefix ''Daily limit reached'' (r_reason (fst (canDownload now u)))"
    using assms(1) daily
    by (simp add: canDownload_reason canDownload_daily dailyReason_prefix)
  have B: "0 < remaining (r_daily (fst (canDownload now u))) \<longrightarrow>
            remaining (r_monthly (fst (canDownload now u))) \<le> 0 \<and>
            r_reason (fst (canDownload now u)) =
              monthlyReason (used (r_monthly (fst (canDownload now u))))
                (limit (r_monthly (fst (canDownload now u)))) (daysUntilMonthlyReset now)
                (subscription u = Free) \<and>
            prefix ''Monthly limit reached'' (r_reason (fst (canDownload now u)))"
  proof
    assume "0 < remaining (r_daily (fst (canDownload now u)))"
    then have nd: "\<not> 15 \<le> dailyDownloads (rolled now u)"
      using daily by simp
    then have m: "monthlyLimit now u \<le> monthlyDownloads (rolled now u)"
      using g by simp
    show "remaining (r_monthly (fst (canDownload now u))) \<le> 0 \<and>
            r_reason (fst (canDownload now u)) =
              monthlyReason (used (r_monthly (fst (canDownload now u))))
                (limit (r_monthly (fst (canDownload now u)))) (daysUntilMonthlyReset now)
                (subscription u = Free) \<and>
            prefix ''Monthly limit reached'' (r_reason (fst (canDownload now u)))"
      using assms(1) nd m
      by (simp add: canDownload_reason canDownload_monthly monthlyReason_prefix)
  qed
  show ?thesis
    using A B h t d n sm tomorrow_eq [of now] nextMonth_first_day [of now]
      hoursUntilDailyReset_range [of now] daysUntilMonthlyReset_range [of now]
    by blast
qed

theorem canDownload_reason_gate_witness:
  "isVerified bothExhaustedUser \<and> \<not> r_canDownload (fst (canDownload exNow bothExhaustedUser)) \<and>
   remaining (r_daily (fst (canDownload exNow bothExhaustedUser))) = 0 \<and>
   remaining (r_monthly (fst (canDownload exNow bothExhaustedUser))) = 0 \<and>
   r_reason (fst (canDownload exNow bothExhaustedUser)) =
     ''Daily limit reached (15/15). Resets automatically in 12 hours.'' \<and>
   isVerified monthlyExhaustedUser \<and>
   \<not> r_canDownload (fst (canDownload exNow monthlyExhaustedUser)) \<and>
   remaining (r_daily (fst (canDownload exNow monthlyExhaustedUser))) = 12 \<and>
   r_reason (fst (canDownload exNow monthlyExhaustedUser)) =
     ''Monthly limit reached (350/350). Resets in 4 days. Upgrade to premium for 500 downloads/month!''"
proof -
  have v: "isVerified bothExhaustedUser" "isVerified monthlyExhaustedUser"
    by (simp_all add: example_defs)
  have f: "dailyDownloads bothExhaustedUser = 15" "monthlyDownloads bothExhaustedUser = 350"
    "dailyDownloads monthlyExhaustedUser = 3" "monthlyDownloads monthlyExhaustedUser = 350"
    "subscription monthlyExhaustedUser = Free"
    by (simp_all add: example_defs)
  have m: "monthlyLimit exNow bothExhaustedUser = 350" "monthlyLimit exNow monthlyExhaustedUser = 350"
    by (simp_all add: monthlyLimit_def isActive_def isPremium_def example_defs)
  have n1: "\<not> r_canDownload (fst (canDownload exNow bothExhaustedUser))"
    by (simp add: canDownload_can rolled_exhausted f)
  have n2: "\<not> r_canDownload (fst (canDownload exNow monthlyExhaustedUser))"
    by (simp add: canDownload_can rolled_exhausted f m)
  have s1: "dailyReason 15 15 12 = ''Daily limit reached (15/15). Resets automatically in 12 hours.''"
    by (simp add: dailyReason_def showInt_def digits.simps plural_def)
  have s2: "monthlyReason 350 350 4 True =
     ''Monthly limit reached (350/350). Resets in 4 days. Upgrade to premium for 500 downloads/month!''"
    by (simp add: monthlyReason_def showInt_def digits.simps plural_def)
  note daily = canDownload_reason_gate [OF v(1) n1, THEN conjunct1]
  note monthly = canDownload_reason_gate [OF v(2) n2, THEN conjunct2, THEN conjunct1]
  show ?thesis
    using v n1 n2 daily monthly
    by (simp add: canDownload_daily canDownload_monthly rolled_exhausted f m
        exNow_reset_times s1 s2)
qed

text \<open>
  C8 as stated, for every ineligible result, fails on the verification guard: for an
  unverified account the result is ineligible and the reason names neither gate.
\<close>

theorem canDownload_reason_gate_counterexample:
  "\<not> r_canDownload (fst (canDownload exNow unverifiedUser)) \<and>
   r_reason (fst (canDownload exNow unverifiedUser)) =
     ''Email not verified - please check your email and verify your account'' \<and>
   \<not> prefix ''Daily limit reached'' (r_reason (fst (canDownload exNow unverifiedUser))) \<and>
   \<not> prefix ''Monthly limit reached'' (r_reason (fst (canDownload exNow unverifiedUser)))"
  by (simp add: canDownload_unverifiedUser)

text \<open>
  C10: for an unverified account \<open>canDownload\<close> returns before any reset. The document is
  unchanged (counters and both anchors included), the result is ineligible with the
  verification reason, and the snapshot reports used = 0 with the full remaining amounts
  (15 and 350) whatever the stored counters are.
\<close>

theorem canDownload_unverified_snapshot:
  assumes "\<not> isVerified u"
  shows "snd (canDownload now u) = u \<and>
         \<not> r_canDownload (fst (canDownload now u)) \<and>
         r_requiresVerification (fst (canDownload now u)) \<and>
         r_reason (fst (canDownload now u)) =
           ''Email not verified - please check your email and verify your account'' \<and>
         r_daily (fst (canDownload now u)) =
           \<lparr>used = 0, limit = 15, remaining = 15, untilReset = None\<rparr> \<and>
         r_monthly (fst (canDownload now u)) =
           \<lparr>used = 0, limit = 350, remaining = 350, untilReset = None\<rparr>"
  using assms by (simp add: canDownload_unverified)

theorem canDownload_unverified_snapshot_witness:
  "\<not> isVerified unverifiedUser \<and>
   dailyDownloads unverifiedUser = 15 \<and> monthlyDownloads unverifiedUser = 100 \<and>
   dailyDownloadDate unverifiedUser = Some 1706270000000 \<and> Day 1706270000000 < Day exNow \<and>
   snd (canDownload exNow unverifiedUser) = unverifiedUser \<and>
   used (r_daily (fst (canDownload exNow unverifiedUser))) = 0 \<and>
   remaining (r_daily (fst (canDownload exNow unverifiedUser))) = 15 \<and>
   used (r_monthly (fst (canDownload exNow unverifiedUser))) = 0 \<and>
   remaining (r_monthly (fst (canDownload exNow unverifiedUser))) = 350"
proof -
  have v: "\<not> isVerified unverifiedUser" by (simp add: example_defs)
  have f: "dailyDownloads unverifiedUser = 15" "monthlyDownloads unverifiedUser = 100"
    "dailyDownloadDate unverifiedUser = Some 1706270000000"
    by (simp_all add: example_defs)
  have d: "Day 1706270000000 < Day exNow" by (simp add: Day_def msPerDay_def exNow_def)
  show ?thesis
    using v f d canDownload_unverified_snapshot [OF v, of exNow] by simp
qed

section \<open>The download transaction\<close>

lemma incrementCounters_eq:
  "incrementCounters now pd u =
     (let u2 = rolled now u;
          u3 = u2\<lparr>dailyDownloads := dailyDownloads u2 + 1,
                  monthlyDownloads := monthlyDownloads u2 + 1,
                  totalDownloads := totalDownloads u2 + 1\<rparr>
      in case pd_productId pd of
           None \<Rightarrow> u3
         | Some pid \<Rightarrow>
             u3\<lparr>downloads := downloads u3 @
                    [\<lparr>h_productId = pid,
                      productTitle = orDefault (pd_productTitle pd) ''Unknown Product'',
                      productCategory = orDefault (pd_productCategory pd) ''unknown'',
                      downloadedAt = now,
                      downloadSource = orDefault (pd_downloadSource pd) ''web'',
                      h_ipAddress = orDefault (pd_ipAddress pd) ''unknown''\<rparr>],
                 downloadStats :=
                   (bumpCategory (pd_productCategory pd)
                      ((downloadStats u3)\<lparr>s_totalDownloads := totalDownloads u3\<rparr>))
                     \<lparr>mostActiveDay := Some (weekdayName now), lastStatsUpdate := now\<rparr>\<rparr>)"
  by (simp add: incrementCounters_def rolled_def Let_def case_prod_beta)

lemma incrementCounters_fields:
  "dailyDownloads (incrementCounters now pd u) = dailyDownloads (rolled now u) + 1"
  "monthlyDownloads (incrementCounters now pd u) = monthlyDownloads (rolled now u) + 1"
  "totalDownloads (incrementCounters now pd u) = totalDownloads u + 1"
  "isVerified (incrementCounters now pd u) = isVerified u"
  "subscription (incrementCounters now pd u) = subscription u"
  "premiumExpiry (incrementCounters now pd u) = premiumExpiry u"
  "monthlyDownloadMonth (incrementCounters now pd u) = monthToken now"
  "dailyDownloadDate (incrementCounters now pd u) = dailyDownloadDate (rolled now u)"
  by (simp_all add: incrementCounters_eq Let_def split: option.splits)

lemma acceptedUser_fields:
  "dailyDownloads (acceptedUser now pid p u) = dailyDownloads (rolled now u) + 1"
  "monthlyDownloads (acceptedUser now pid p u) = monthlyDownloads (rolled now u) + 1"
  "totalDownloads (acceptedUser now pid p u) = totalDownloads u + 1"
  "isVerified (acceptedUser now pid p u) = isVerified u"
  "subscription (acceptedUser now pid p u) = subscription u"
  "premiumExpiry (acceptedUser now pid p u) = premiumExpiry u"
  "monthlyDownloadMonth (acceptedUser now pid p u) = monthToken now"
  "dailyDownloadDate (acceptedUser now pid p u) = dailyDownloadDate (rolled now u)"
  by (simp_all add: acceptedUser_def incrementCounters_fields)

lemma acceptedUser_history:
  "downloads (acceptedUser now pid p u) =
     downloads u @ [\<lparr>h_productId = pid, productTitle = orDefault (title p) ''Unknown Product'',
        productCategory = orDefault (category p) ''unknown'', downloadedAt = now,
        downloadSource = ''web'', h_ipAddress = ''unknown''\<rparr>]"
  by (simp add: acceptedUser_def incrementCounters_eq routeProductData_def Let_def orDefault_def)

lemma incrementDownloadCount_eq:
  "incrementDownloadCount saveFails now uid pd u s =
     (if saveFails then None
      else Some (\<lparr>dailyCount = dailyDownloads (rolled now u) + 1,
                  monthlyCount = monthlyDownloads (rolled now u) + 1,
                  totalCount = totalDownloads u + 1,
                  dailyRemaining = max 0 (15 - (dailyDownloads (rolled now u) + 1)),
                  monthlyRemaining =
                    max 0 (monthlyLimit now u - (monthlyDownloads (rolled now u) + 1))\<rparr>,
                 (incrementCounters now pd u)\<lparr>lastActivity := now\<rparr>,
                 s\<lparr>working := (working s)\<lparr>users := (users (working s))
                      (uid \<mapsto> (incrementCounters now pd u)\<lparr>lastActivity := now\<rparr>)\<rparr>\<rparr>))"
  by (simp add: incrementDownloadCount_def saveUser_def Let_def incrementCounters_fields
      monthlyLimit_def isActive_def isPremium_def)

lemma recordDownload_faults:
  assumes "fault = FailSaveDownload \<or> fault = FailSaveUser \<or> fault = FailSaveProduct"
  shows "recordDownload fault now req pid p u1 (startTransaction db) = (ServerError, db)"
  using assms
  by (auto simp add: recordDownload_def incrementDownloadCount_eq Let_def startTransaction_def
      abortTransaction_def saveDownload_def saveProduct_def)

lemma recordDownload_commit_rejected:
  "recordDownload (FailCommit applied) now req pid p (rolled now u) (startTransaction db) =
     (NoResponse, if applied then acceptedDb now req pid p u db else db)"
  by (simp add: recordDownload_def incrementDownloadCount_eq Let_def startTransaction_def
      commitRejected_def saveDownload_def saveProduct_def case_prod_beta acceptedDb_def
      acceptedUser_def acceptedDownload_def routeProductData_def)

lemma recordDownload_ok:
  assumes "fault \<noteq> FailSaveDownload" "fault \<noteq> FailSaveUser" "fault \<noteq> FailSaveProduct"
    "commitRejected fault = None"
  shows "recordDownload fault now req pid p (rolled now u) (startTransaction db) =
     (Accepted \<lparr>ac_message = ''\"'' @ title p @ ''\" download started successfully!'',
                ac_downloadUrl = downloadUrl p,
                ac_product = productInfo pid (p\<lparr>p_downloads := p_downloads p + 1\<rparr>),
                ac_userStats = fst (canDownload now (acceptedUser now pid p u)),
                ac_download = acceptedDownload now req pid p\<rparr>,
      acceptedDb now req pid p u db)"
  using assms
  by (simp add: recordDownload_def incrementDownloadCount_eq Let_def startTransaction_def
      commitTransaction_def saveDownload_def saveProduct_def case_prod_beta acceptedDb_def
      acceptedUser_def acceptedDownload_def routeProductData_def)

lemma consume_invalid:
  "req_productId req = None \<Longrightarrow> consume fault now req db = (InvalidProductId, db)"
  by (simp add: consume_def)

lemma consume_findUser_fault:
  "req_productId req = Some pid \<Longrightarrow> consume FailFindUser now req db = (ServerError, db)"
  by (simp add: consume_def startTransaction_def abortTransaction_def)

lemma consume_no_user:
  "req_productId req = Some pid \<Longrightarrow> fault \<noteq> FailFindUser \<Longrightarrow>
   users db (req_userId req) = None \<Longrightarrow> consume fault now req db = (UserNotFound, db)"
  by (simp add: consume_def startTransaction_def abortTransaction_def)

lemma consume_unverified:
  "req_productId req = Some pid \<Longrightarrow> fault \<noteq> FailFindUser \<Longrightarrow>
   users db (req_userId req) = Some u \<Longrightarrow> \<not> isVerified u \<Longrightarrow>
   consume fault now req db = (VerificationRequired, db)"
  by (simp add: consume_def startTransaction_def abortTransaction_def)

lemma consume_denied:
  "req_productId req = Some pid \<Longrightarrow> fault \<noteq> FailFindUser \<Longrightarrow>
   users db (req_userId req) = Some u \<Longrightarrow> isVerified u \<Longrightarrow>
   \<not> r_canDownload (fst (canDownload now u)) \<Longrightarrow>
   consume fault now req db = (Denied (deniedBody now (fst (canDownload now u))), db)"
  by (simp add: consume_def startTransaction_def abortTransaction_def case_prod_beta)

text \<open>The handler past the eligibility check.\<close>

lemma consume_eligible:
  assumes "req_productId req = Some pid" "fault \<noteq> FailFindUser"
    "users db (req_userId req) = Some u" "isVerified u"
    "r_canDownload (fst (canDownload now u))"
  shows "consume fault now req db =
     (if fault = FailFindProduct then (ServerError, db)
      else case products db pid of
        None \<Rightarrow> (ProductNotFound, db)
      | Some p \<Rightarrow>
         if \<not> p_isActive p then (ProductNotFound, db)
         else if fault = FailFindDownload then (ServerError, db)
         else case existingRecentDownload now (req_userId req) pid db of
           Some existing \<Rightarrow>
             (Replayed \<lparr>rp_message = ''You recently downloaded \"'' @ title p
                           @ ''\". Here's the download link again!'',
                        rp_downloadUrl = downloadUrl p,
                        rp_product = productInfo pid p,
                        rp_userStats = fst (canDownload now u)\<rparr>, db)
         | None \<Rightarrow>
             (case fault of
                NoFault \<Rightarrow>
                  (Accepted
                     \<lparr>ac_message = ''\"'' @ title p @ ''\" download started successfully!'',
                      ac_downloadUrl = downloadUrl p,
                      ac_product = productInfo pid (p\<lparr>p_downloads := p_downloads p + 1\<rparr>),
                      ac_userStats = fst (canDownload now (acceptedUser now pid p u)),
                      ac_download = acceptedDownload now req pid p\<rparr>,
                   acceptedDb now req pid p u db)
              | FailCommit applied \<Rightarrow>
                  (NoResponse, if applied then acceptedDb now req pid p u db else db)
              | _ \<Rightarrow> (ServerError, db)))"
proof -
  have w: "working (startTransaction db) = db" "abortTransaction (startTransaction db) = db"
    by (simp_all add: startTransaction_def abortTransaction_def)
  have s: "snd (canDownload now u) = rolled now u"
    using assms(4) by (rule canDownload_snd)
  have c: "commitRejected NoFault = None" by (simp add: commitRejected_def)
  show ?thesis
    using assms
    by (cases fault)
       (simp_all add: consume_def Let_def case_prod_beta w s recordDownload_ok c
          recordDownload_faults recordDownload_commit_rejected split: option.splits)
qed

lemma consume_ineligible:
  assumes "req_productId req = Some pid" "fault \<noteq> FailFindUser"
    "users db (req_userId req) = Some u"
    "\<not> (isVerified u \<and> r_canDownload (fst (canDownload now u)))"
  shows "snd (consume fault now req db) = db \<and> \<not> isAccepted (fst (consume fault now req db))"
proof (cases "isVerified u")
  case False
  then show ?thesis using consume_unverified [OF assms(1-3)] by simp
next
  case True
  then have "\<not> r_canDownload (fst (canDownload now u))" using assms(4) by simp
  then show ?thesis using consume_denied [OF assms(1-3) True] by simp
qed

lemma consume_accepted_cases:
  assumes "consume fault now req db = (Accepted b, db')"
  shows "fault = NoFault \<and>
     (\<exists>pid u p. req_productId req = Some pid \<and> users db (req_userId req) = Some u \<and>
        isVerified u \<and> r_canDownload (fst (canDownload now u)) \<and>
        products db pid = Some p \<and> p_isActive p \<and>
        existingRecentDownload now (req_userId req) pid db = None \<and>
        db' = acceptedDb now req pid p u db \<and>
        ac_download b = acceptedDownload now req pid p \<and>
        ac_downloadUrl b = downloadUrl p)"
proof (cases "req_productId req")
  case None
  then show ?thesis using assms by (simp add: consume_invalid)
next
  case (Some pid)
  show ?thesis
  proof (cases "fault = FailFindUser")
    case True
    then show ?thesis using assms Some by (simp add: consume_findUser_fault)
  next
    case nf: False
    show ?thesis
    proof (cases "users db (req_userId req)")
      case None
      then show ?thesis using assms Some nf by (simp add: consume_no_user)
    next
      case u: (Some u)
      show ?thesis
      proof (cases "isVerified u \<and> r_canDownload (fst (canDownload now u))")
        case False
        then show ?thesis
          using assms consume_ineligible [OF Some nf u, of now] by simp
      next
        case True
        then show ?thesis
          using assms Some u consume_eligible [OF Some nf u, of now]
          by (auto split: if_splits option.splits Fault.splits)
      qed
    qed
  qed
qed

text \<open>Every request leaves the database as it was or with the whole accepted update.\<close>

lemma consume_db_cases:
  "snd (consume fault now req db) = db \<or>
   (\<exists>pid u p. req_productId req = Some pid \<and> users db (req_userId req) = Some u \<and>
      isVerified u \<and> r_canDownload (fst (canDownload now u)) \<and> products db pid = Some p \<and>
      (fault = NoFault \<or> fault = FailCommit True) \<and>
      snd (consume fault now req db) = acceptedDb now req pid p u db)"
proof (cases "req_productId req")
  case None
  then show ?thesis by (simp add: consume_invalid)
next
  case (Some pid)
  show ?thesis
  proof (cases "fault = FailFindUser")
    case True
    then show ?thesis using Some by (simp add: consume_findUser_fault)
  next
    case nf: False
    show ?thesis
    proof (cases "users db (req_userId req)")
      case None
      then show ?thesis using Some nf by (simp add: consume_no_user)
    next
      case u: (Some u)
      show ?thesis
      proof (cases "isVerified u \<and> r_canDownload (fst (canDownload now u))")
        case False
        then show ?thesis
          using consume_ineligible [OF Some nf u, of now] by simp
      next
        case True
        then show ?thesis
          using Some u consume_eligible [OF Some nf u, of now]
          by (auto split: if_splits option.splits Fault.splits)
      qed
    qed
  qed
qed

lemma consume_unchanged:
  assumes "fault \<noteq> NoFault" "fault \<noteq> FailCommit True"
  shows "snd (consume fault now req db) = db"
  using consume_db_cases [of fault now req db] assms by auto

lemma consume_fault_not_accepted:
  assumes "fault \<noteq> NoFault"
  shows "\<not> isAccepted (fst (consume fault now req db))"
proof
  assume "isAccepted (fst (consume fault now req db))"
  then obtain b where "fst (consume fault now req db) = Accepted b"
    by (cases "fst (consume fault now req db)") simp_all
  then have "consume fault now req db = (Accepted b, snd (consume fault now req db))"
    by (simp add: prod_eq_iff)
  then have "fault = NoFault" using consume_accepted_cases by blast
  then show False using assms by simp
qed

lemma acceptedDb_fields:
  "downloadColl (acceptedDb now req pid p u db) = downloadColl db @ [acceptedDownload now req pid p]"
  "users (acceptedDb now req pid p u db) = (users db)(req_userId req \<mapsto> acceptedUser now pid p u)"
  "products (acceptedDb now req pid p u db) =
     (products db)(pid \<mapsto> p\<lparr>p_downloads := p_downloads p + 1\<rparr>)"
  by (simp_all add: acceptedDb_def)

lemma acceptedDownload_fields:
  "d_userId (acceptedDownload now req pid p) = req_userId req"
  "d_productId (acceptedDownload now req pid p) = pid"
  "downloadDate (acceptedDownload now req pid p) = now"
  "d_downloadUrl (acceptedDownload now req pid p) = downloadUrl p"
  by (simp_all add: acceptedDownload_def)

text \<open>What a request writes: an accepted request writes the record, the three counters and
  the product counter together; a request during which an operation before the commit
  rejects, or whose rejected commit was discarded by the server, writes nothing.\<close>

lemma consume_all_or_nothing:
  "(fault \<noteq> NoFault \<longrightarrow> \<not> isAccepted (fst (consume fault now req db))) \<and>
   (fault \<noteq> NoFault \<and> fault \<noteq> FailCommit True \<longrightarrow> snd (consume fault now req db) = db) \<and>
   (\<forall>b. fst (consume fault now req db) = Accepted b \<longrightarrow>
      (\<exists>pid u p u'.
         req_productId req = Some pid \<and> users db (req_userId req) = Some u \<and>
         products db pid = Some p \<and>
         downloadColl (snd (consume fault now req db)) = downloadColl db @ [ac_download b] \<and>
         d_userId (ac_download b) = req_userId req \<and> d_productId (ac_download b) = pid \<and>
         downloadDate (ac_download b) = now \<and>
         users (snd (consume fault now req db)) (req_userId req) = Some u' \<and>
         dailyDownloads u' = dailyDownloads (rolled now u) + 1 \<and>
         monthlyDownloads u' = monthlyDownloads (rolled now u) + 1 \<and>
         totalDownloads u' = totalDownloads u + 1 \<and>
         products (snd (consume fault now req db)) pid
           = Some (p\<lparr>p_downloads := p_downloads p + 1\<rparr>) \<and>
         (\<forall>v. v \<noteq> req_userId req \<longrightarrow> users (snd (consume fault now req db)) v = users db v) \<and>
         (\<forall>q. q \<noteq> pid \<longrightarrow> products (snd (consume fault now req db)) q = products db q)))"
proof (intro conjI allI impI)
  assume "fault \<noteq> NoFault"
  then show "\<not> isAccepted (fst (consume fault now req db))"
    by (rule consume_fault_not_accepted)
next
  assume "fault \<noteq> NoFault \<and> fault \<noteq> FailCommit True"
  then show "snd (consume fault now req db) = db"
    using consume_unchanged by blast
next
  fix b
  assume "fst (consume fault now req db) = Accepted b"
  then have "consume fault now req db = (Accepted b, snd (consume fault now req db))"
    by (simp add: prod_eq_iff)
  from consume_accepted_cases [OF this]
  obtain pid u p where *: "req_productId req = Some pid" "users db (req_userId req) = Some u"
    "products db pid = Some p"
    "snd (consume fault now req db) = acceptedDb now req pid p u db"
    "ac_download b = acceptedDownload now req pid p"
    by blast
  show "\<exists>pid u p u'.
         req_productId req = Some pid \<and> users db (req_userId req) = Some u \<and>
         products db pid = Some p \<and>
         downloadColl (snd (consume fault now req db)) = downloadColl db @ [ac_download b] \<and>
         d_userId (ac_download b) = req_userId req \<and> d_productId (ac_download b) = pid \<and>
         downloadDate (ac_download b) = now \<and>
         users (snd (consume fault now req db)) (req_userId req) = Some u' \<and>
         dailyDownloads u' = dailyDownloads (rolled now u) + 1 \<and>
         monthlyDownloads u' = monthlyDownloads (rolled now u) + 1 \<and>
         totalDownloads u' = totalDownloads u + 1 \<and>
         products (snd (consume fault now req db)) pid
           = Some (p\<lparr>p_downloads := p_downloads p + 1\<rparr>) \<and>
         (\<forall>v. v \<noteq> req_userId req \<longrightarrow> users (snd (consume fault now req db)) v = users db v) \<and>
         (\<forall>q. q \<noteq> pid \<longrightarrow> products (snd (consume fault now req db)) q = products db q)"
    apply (rule exI [of _ pid], rule exI [of _ u], rule exI [of _ p])
    apply (rule exI [of _ "acceptedUser now pid p u"])
    apply (simp add: * acceptedDb_fields acceptedDownload_fields acceptedUser_fields)
    done
qed

lemma monthlyLimit_cong:
  "subscription u' = subscription u \<Longrightarrow> premiumExpiry u' = premiumExpiry u \<Longrightarrow>
   monthlyLimit t u' = monthlyLimit t u"
  by (simp add: monthlyLimit_def isActive_def isPremium_def)

lemma consume_monthly_step:
  assumes "users db uid = Some u" "monthlyDownloads u \<le> L" "monthlyLimit now u = L"
  shows "\<exists>u'. users (snd (consume fault now req db)) uid = Some u' \<and>
           monthlyDownloads u' \<le> L \<and> subscription u' = subscription u \<and>
           premiumExpiry u' = premiumExpiry u"
proof -
  consider (same) "snd (consume fault now req db) = db"
    | (written) pid v p where "users db (req_userId req) = Some v"
        "r_canDownload (fst (canDownload now v))"
        "snd (consume fault now req db) = acceptedDb now req pid p v db"
    using consume_db_cases [of fault now req db] by blast
  then show ?thesis
  proof cases
    case same
    then show ?thesis using assms by simp
  next
    case written
    show ?thesis
    proof (cases "req_userId req = uid")
      case False
      then show ?thesis using assms written by (simp add: acceptedDb_fields)
    next
      case True
      then have "v = u" using assms(1) written(1) by simp
      moreover have "monthlyDownloads (rolled now v) < monthlyLimit now v"
        using written(2) by (simp add: canDownload_can)
      ultimately show ?thesis
        using True assms(3) written by (simp add: acceptedDb_fields acceptedUser_fields)
    qed
  qed
qed

lemma consumeAll_monthly:
  assumes "users db uid = Some u0" "monthlyDownloads u0 \<le> L"
    "\<forall>(fault, now, req) \<in> set calls. monthlyLimit now u0 = L"
  shows "\<exists>u. users (consumeAll calls db) uid = Some u \<and> monthlyDownloads u \<le> L \<and>
           subscription u = subscription u0 \<and> premiumExpiry u = premiumExpiry u0"
  using assms
proof (induction calls arbitrary: db u0)
  case Nil
  then show ?case by simp
next
  case (Cons c calls)
  obtain fault now req where c: "c = (fault, now, req)" by (cases c)
  have lim: "monthlyLimit now u0 = L" using Cons.prems(3) c by simp
  from consume_monthly_step [OF Cons.prems(1,2) lim, of fault req]
  obtain u1 where u1: "users (snd (consume fault now req db)) uid = Some u1"
    "monthlyDownloads u1 \<le> L" "subscription u1 = subscription u0"
    "premiumExpiry u1 = premiumExpiry u0"
    by blast
  have "\<forall>(fault, now, req) \<in> set calls. monthlyLimit now u1 = L"
    using Cons.prems(3) monthlyLimit_cong [OF u1(3,4)] by auto
  from Cons.IH [OF u1(1,2) this] show ?case
    using u1 c by auto
qed

lemma consume_accepted_within_limit:
  assumes "fst (consume fault now req db) = Accepted b"
  shows "\<exists>u'. users (snd (consume fault now req db)) (req_userId req) = Some u' \<and>
           monthlyDownloads u' \<le> monthlyLimit now u'"
proof -
  have "consume fault now req db = (Accepted b, snd (consume fault now req db))"
    using assms by (simp add: prod_eq_iff)
  from consume_accepted_cases [OF this]
  obtain pid v p where *: "users db (req_userId req) = Some v"
    "r_canDownload (fst (canDownload now v))"
    "snd (consume fault now req db) = acceptedDb now req pid p v db"
    by blast
  have "monthlyDownloads (rolled now v) < monthlyLimit now v"
    using *(2) by (simp add: canDownload_can)
  moreover have "monthlyLimit now (acceptedUser now pid p v) = monthlyLimit now v"
    by (rule monthlyLimit_cong) (simp_all add: acceptedUser_fields)
  ultimately show ?thesis
    using * by (simp add: acceptedDb_fields acceptedUser_fields)
qed

lemma consume_at_limit_denied:
  assumes "users db (req_userId req) = Some u" "isVerified u" "req_productId req = Some pid"
    "fault \<noteq> FailFindUser" "monthlyDownloadMonth u = monthToken now"
    "monthlyLimit now u \<le> monthlyDownloads u"
  shows "isDenied (fst (consume fault now req db)) \<and> snd (consume fault now req db) = db"
proof -
  have "\<not> r_canDownload (fst (canDownload now u))"
    using assms(5,6) by (simp add: canDownload_can rolled_monthly)
  from consume_denied [OF assms(3,4,1,2) this] show ?thesis by simp
qed

lemma find_append_last:
  "P x \<Longrightarrow> find P (xs @ [x]) \<noteq> None"
  by (auto simp add: find_None_iff)

section \<open>The example requests\<close>

lemma rolled_current:
  "dailyDownloadDate u = Some a \<Longrightarrow> Day t \<le> Day a \<Longrightarrow> monthlyDownloadMonth u = monthToken t \<Longrightarrow>
   rolled t u = u"
  by (simp add: rolled_def resetDaily_cases resetMonthly_cases)

lemma exNow_days:
  "Day exNow = 19750" "Day (exNow + 2000) = 19750" "Day (exNow + 60000) = 19750"
  "Day 1706400000000 = 19750"
  by (simp_all add: Day_def msPerDay_def exNow_def)

lemma exNow_tokens:
  "monthToken exNow = ''2024-01''" "monthToken (exNow + 2000) = ''2024-01''"
  "monthToken (exNow + 60000) = ''2024-01''"
  by (simp_all add: calendar_defs exNow_def Let_def)

lemma dbOf_fields:
  "users (dbOf u) 7 = Some u" "products (dbOf u) 10 = Some exProduct" "downloadColl (dbOf u) = []"
  by (simp_all add: dbOf_def)

lemma exReq_fields: "req_userId exReq = 7" "req_productId exReq = Some 10"
  by (simp_all add: exReq_def)

lemma consume_dbOf_accepted:
  assumes "isVerified u" "r_canDownload (fst (canDownload t u))"
  shows "consume NoFault t exReq (dbOf u) =
     (Accepted \<lparr>ac_message = ''\"'' @ title exProduct @ ''\" download started successfully!'',
                ac_downloadUrl = downloadUrl exProduct,
                ac_product = productInfo 10 (exProduct\<lparr>p_downloads := p_downloads exProduct + 1\<rparr>),
                ac_userStats = fst (canDownload t (acceptedUser t 10 exProduct u)),
                ac_download = acceptedDownload t exReq 10 exProduct\<rparr>,
      acceptedDb t exReq 10 exProduct u (dbOf u))"
proof -
  have nf: "NoFault \<noteq> FailFindUser" by simp
  have u: "users (dbOf u) (req_userId exReq) = Some u" by (simp add: exReq_fields dbOf_fields)
  have a: "p_isActive exProduct" by (simp add: exProduct_def)
  have e: "existingRecentDownload t (req_userId exReq) 10 (dbOf u) = None"
    by (simp add: existingRecentDownload_def dbOf_fields)
  show ?thesis
    using consume_eligible [OF exReq_fields(2) nf u assms] a e by (simp add: dbOf_fields)
qed

lemma example_users_current:
  "rolled exNow lightUser = lightUser" "rolled exNow nearLimitUser = nearLimitUser"
  "rolled exNow expiringPremiumUser = expiringPremiumUser"
  by (rule rolled_current [where a = 1706400000000];
      simp add: exNow_days exNow_tokens user_defs)+

lemma example_users_can:
  "r_canDownload (fst (canDownload exNow exUser))"
  "r_canDownload (fst (canDownload exNow lightUser))"
  "r_canDownload (fst (canDownload exNow nearLimitUser))"
  "r_canDownload (fst (canDownload exNow expiringPremiumUser))"
  unfolding canDownload_can rolled_exUser example_users_current
  by (simp_all add: monthlyLimit_def isActive_def isPremium_def user_defs exNow_def)

lemma example_users_verified:
  "isVerified exUser" "isVerified lightUser" "isVerified nearLimitUser"
  "isVerified expiringPremiumUser" "isVerified monthlyExhaustedUser"
  by (simp_all add: example_defs)

lemma afterFirst_eq:
  assumes "isVerified u" "r_canDownload (fst (canDownload exNow u))"
  shows "afterFirst u = acceptedDb exNow exReq 10 exProduct u (dbOf u)"
    and "isAccepted (fst (consume NoFault exNow exReq (dbOf u)))"
    and "users (afterFirst u) 7 = Some (acceptedUser exNow 10 exProduct u)"
  using consume_dbOf_accepted [OF assms]
  by (simp_all add: afterFirst_def acceptedDb_fields exReq_fields)

lemma acceptedUser_current:
  assumes "rolled exNow u = u" "dailyDownloadDate u = Some 1706400000000"
    "Day t = 19750" "monthToken t = ''2024-01''"
  shows "rolled t (acceptedUser exNow 10 exProduct u) = acceptedUser exNow 10 exProduct u"
  using assms
  by (intro rolled_current [where a = 1706400000000])
     (simp_all add: acceptedUser_fields exNow_days exNow_tokens)

lemma acceptedUser_can:
  assumes "rolled exNow u = u" "dailyDownloadDate u = Some 1706400000000"
    "Day t = 19750" "monthToken t = ''2024-01''"
  shows "r_canDownload (fst (canDownload t (acceptedUser exNow 10 exProduct u))) \<longleftrightarrow>
     isVerified u \<and> dailyDownloads u + 1 < 15 \<and> monthlyDownloads u + 1 < monthlyLimit t u"
proof -
  have "monthlyLimit t (acceptedUser exNow 10 exProduct u) = monthlyLimit t u"
    by (rule monthlyLimit_cong) (simp_all add: acceptedUser_fields)
  then show ?thesis
    unfolding canDownload_can acceptedUser_current [OF assms]
    by (simp add: acceptedUser_fields assms(1))
qed

lemma example_anchor:
  "dailyDownloadDate exUser = Some 1706400000000"
  "dailyDownloadDate lightUser = Some 1706400000000"
  "dailyDownloadDate nearLimitUser = Some 1706400000000"
  "dailyDownloadDate expiringPremiumUser = Some 1706400000000"
  by (simp_all add: user_defs)

lemma second_request_denied:
  assumes "isVerified u" "r_canDownload (fst (canDownload exNow u))"
    "rolled exNow u = u" "dailyDownloadDate u = Some 1706400000000"
    "Day t = 19750" "monthToken t = ''2024-01''"
    "\<not> (dailyDownloads u + 1 < 15 \<and> monthlyDownloads u + 1 < monthlyLimit t u)"
  shows "isDenied (fst (consume NoFault t exReq (afterFirst u)))"
    and "snd (consume NoFault t exReq (afterFirst u)) = afterFirst u"
proof -
  have nf: "NoFault \<noteq> FailFindUser" by simp
  have u: "users (afterFirst u) (req_userId exReq) = Some (acceptedUser exNow 10 exProduct u)"
    using afterFirst_eq(3) [OF assms(1,2)] by (simp add: exReq_fields)
  have v: "isVerified (acceptedUser exNow 10 exProduct u)"
    using assms(1) by (simp add: acceptedUser_fields)
  have n: "\<not> r_canDownload (fst (canDownload t (acceptedUser exNow 10 exProduct u)))"
    using assms(7) by (simp add: acceptedUser_can [OF assms(3-6)])
  from consume_denied [OF exReq_fields(2) nf u v n]
  show "isDenied (fst (consume NoFault t exReq (afterFirst u)))"
    and "snd (consume NoFault t exReq (afterFirst u)) = afterFirst u"
    by simp_all
qed

section \<open>Claims about the download transaction\<close>

text \<open>
  C1, as amended: take any sequence of requests, on one account or several, during which the
  effective monthly limit of the account \<open>uid\<close> keeps one value \<open>L\<close> (its tier does not
  expire between the calls), starting from a committed monthly counter within \<open>L\<close>. After
  every prefix of the sequence the committed monthly counter is still within \<open>L\<close>. Moreover,
  every accepted request commits a monthly counter within the limit in force at that
  instant, and once the monthly counter of a verified account has reached the limit, a
  request of the same month is denied and commits nothing.
\<close>

theorem monthly_limit_safety:
  assumes "users db uid = Some u0" and "monthlyDownloads u0 \<le> L"
    and "\<forall>(fault, now, req) \<in> set calls. monthlyLimit now u0 = L"
  shows "(\<forall>n. \<exists>u. users (consumeAll (take n calls) db) uid = Some u \<and>
              monthlyDownloads u \<le> L) \<and>
         (\<forall>fault now req d b.
            fst (consume fault now req d) = Accepted b \<longrightarrow>
            (\<exists>u'. users (snd (consume fault now req d)) (req_userId req) = Some u' \<and>
                  monthlyDownloads u' \<le> monthlyLimit now u')) \<and>
         (\<forall>fault now req d u pid.
            users d (req_userId req) = Some u \<and> isVerified u \<and>
            req_productId req = Some pid \<and> fault \<noteq> FailFindUser \<and>
            monthlyDownloadMonth u = monthToken now \<and>
            monthlyLimit now u \<le> monthlyDownloads u \<longrightarrow>
            isDenied (fst (consume fault now req d)) \<and> snd (consume fault now req d) = d)"
proof (intro conjI allI impI)
  fix n
  have "\<forall>(fault, now, req) \<in> set (take n calls). monthlyLimit now u0 = L"
    using assms(3) by (meson in_set_takeD)
  from consumeAll_monthly [OF assms(1,2) this]
  show "\<exists>u. users (consumeAll (take n calls) db) uid = Some u \<and> monthlyDownloads u \<le> L"
    by blast
next
  fix fault now req d b
  assume "fst (consume fault now req d) = Accepted b"
  then show "\<exists>u'. users (snd (consume fault now req d)) (req_userId req) = Some u' \<and>
                  monthlyDownloads u' \<le> monthlyLimit now u'"
    by (rule consume_accepted_within_limit)
next
  fix fault :: Fault and now :: instant and req :: Request and d :: Database
    and u :: User and pid :: nat
  assume a: "users d (req_userId req) = Some u \<and> isVerified u \<and>
            req_productId req = Some pid \<and> fault \<noteq> FailFindUser \<and>
            monthlyDownloadMonth u = monthToken now \<and>
            monthlyLimit now u \<le> monthlyDownloads u"
  then show "isDenied (fst (consume fault now req d))"
    using consume_at_limit_denied by blast
  from a show "snd (consume fault now req d) = d"
    using consume_at_limit_denied by blast
qed

theorem monthly_limit_safety_witness:
  "users (dbOf nearLimitUser) 7 = Some nearLimitUser \<and>
   monthlyDownloads nearLimitUser = 349 \<and>
   monthlyLimit exNow nearLimitUser = 350 \<and> monthlyLimit (exNow + 60000) nearLimitUser = 350 \<and>
   isAccepted (fst (consume NoFault exNow exReq (dbOf nearLimitUser))) \<and>
   isDenied (fst (consume NoFault (exNow + 60000) exReq (afterFirst nearLimitUser))) \<and>
   monthlyDownloads (the (users (consumeAll
      [(NoFault, exNow, exReq), (NoFault, exNow + 60000, exReq)] (dbOf nearLimitUser)) 7)) = 350"
proof -
  have u: "users (dbOf nearLimitUser) 7 = Some nearLimitUser" by (simp add: dbOf_fields)
  have m: "monthlyDownloads nearLimitUser = 349" "dailyDownloads nearLimitUser = 3"
    by (simp_all add: user_defs)
  have le: "monthlyDownloads nearLimitUser \<le> 350" using m by simp
  have l: "monthlyLimit exNow nearLimitUser = 350" "monthlyLimit (exNow + 60000) nearLimitUser = 350"
    by (simp_all add: monthlyLimit_def isActive_def isPremium_def user_defs)
  have c: "\<forall>(fault, now, req) \<in> set [(NoFault, exNow, exReq), (NoFault, exNow + 60000, exReq)].
            monthlyLimit now nearLimitUser = 350"
    using l by simp
  note first = afterFirst_eq [OF example_users_verified(3) example_users_can(3)]
  note second = second_request_denied [OF example_users_verified(3) example_users_can(3)
      example_users_current(2) example_anchor(3) exNow_days(3) exNow_tokens(3)]
  have d: "isDenied (fst (consume NoFault (exNow + 60000) exReq (afterFirst nearLimitUser)))"
    "snd (consume NoFault (exNow + 60000) exReq (afterFirst nearLimitUser)) = afterFirst nearLimitUser"
    using second m l by simp_all
  have run: "consumeAll [(NoFault, exNow, exReq), (NoFault, exNow + 60000, exReq)]
               (dbOf nearLimitUser) = afterFirst nearLimitUser"
    using d(2) by (simp add: afterFirst_def)
  have cnt: "monthlyDownloads (the (users (afterFirst nearLimitUser) 7)) = 350"
    using first(3) m by (simp add: acceptedUser_fields example_users_current)
  show ?thesis
    using monthly_limit_safety [OF u le c] u m l first(2) d(1) run cnt by simp
qed

text \<open>
  C1 as stated fails when a premium tier expires inside the month. The account below is
  premium until one second after \<open>exNow\<close> and has a committed monthly counter of 351, within
  its limit of 500. A request at \<open>exNow\<close> is accepted and commits 352; two seconds later the
  effective limit is 350, a further request is denied, and the committed counter, 352,
  exceeds the effective monthly limit.
\<close>

theorem monthly_limit_safety_counterexample:
  "monthlyDownloads expiringPremiumUser \<le> monthlyLimit exNow expiringPremiumUser \<and>
   isAccepted (fst (consume NoFault exNow exReq (dbOf expiringPremiumUser))) \<and>
   isDenied (fst (consume NoFault (exNow + 2000) exReq (afterFirst expiringPremiumUser))) \<and>
   consumeAll [(NoFault, exNow, exReq), (NoFault, exNow + 2000, exReq)] (dbOf expiringPremiumUser)
     = afterFirst expiringPremiumUser \<and>
   monthlyDownloads (the (users (afterFirst expiringPremiumUser) 7)) = 352 \<and>
   monthlyLimit (exNow + 2000) (the (users (afterFirst expiringPremiumUser) 7)) = 350"
proof -
  have m: "monthlyDownloads expiringPremiumUser = 351" "dailyDownloads expiringPremiumUser = 3"
    by (simp_all add: user_defs)
  have l: "monthlyLimit exNow expiringPremiumUser = 500"
    "monthlyLimit (exNow + 2000) expiringPremiumUser = 350"
    by (simp_all add: monthlyLimit_def isActive_def isPremium_def user_defs exNow_def)
  note first = afterFirst_eq [OF example_users_verified(4) example_users_can(4)]
  note second = second_request_denied [OF example_users_verified(4) example_users_can(4)
      example_users_current(3) example_anchor(4) exNow_days(2) exNow_tokens(2)]
  have d: "isDenied (fst (consume NoFault (exNow + 2000) exReq (afterFirst expiringPremiumUser)))"
    "snd (consume NoFault (exNow + 2000) exReq (afterFirst expiringPremiumUser))
       = afterFirst expiringPremiumUser"
    using second m l by simp_all
  have run: "consumeAll [(NoFault, exNow, exReq), (NoFault, exNow + 2000, exReq)]
               (dbOf expiringPremiumUser) = afterFirst expiringPremiumUser"
    using d(2) by (simp add: afterFirst_def)
  have cnt: "monthlyDownloads (the (users (afterFirst expiringPremiumUser) 7)) = 352"
    using first(3) m by (simp add: acceptedUser_fields example_users_current)
  have lim: "monthlyLimit (exNow + 2000) (the (users (afterFirst expiringPremiumUser) 7)) = 350"
    using first(3) l(2)
      monthlyLimit_cong [of "acceptedUser exNow 10 exProduct expiringPremiumUser"
        expiringPremiumUser "exNow + 2000"]
    by (simp add: acceptedUser_fields)
  show ?thesis using m l first(2) d(1) run cnt lim by simp
qed

text \<open>
  C2 says that an accepted request commits its four writes together and that any rejected
  database operation after the eligibility check rolls every mutation back. The handler
  does the first, and it aborts the transaction when a save rejects. When the commit itself
  rejects, the handler's \<open>catch\<close> block calls \<open>abortTransaction\<close> on a session that has
  already recorded the commit attempt; that call throws, so the handler rolls nothing back,
  sends no response and its promise rejects. In the example below the user has 14 downloads
  today. If the server had applied the transaction before the rejection was reported, the
  request fails and yet the download record, the three counters (15, 101, 201) and the
  product counter are written. If the server had discarded it, the data is unchanged but
  there is still no 500 response, unlike after a rejected save.
\<close>

theorem commit_rejection_unhandled:
  "dailyDownloads exUser = 14 \<and> downloadColl (dbOf exUser) = [] \<and>
   consume (FailCommit True) exNow exReq (dbOf exUser) = (NoResponse, afterFirst exUser) \<and>
   length (downloadColl (afterFirst exUser)) = 1 \<and>
   dailyDownloads (the (users (afterFirst exUser) 7)) = 15 \<and>
   monthlyDownloads (the (users (afterFirst exUser) 7)) = 101 \<and>
   totalDownloads (the (users (afterFirst exUser) 7)) = 201 \<and>
   p_downloads (the (products (afterFirst exUser) 10)) = 8 \<and>
   consume (FailCommit False) exNow exReq (dbOf exUser) = (NoResponse, dbOf exUser) \<and>
   consume FailSaveProduct exNow exReq (dbOf exUser) = (ServerError, dbOf exUser)"
proof -
  note first = afterFirst_eq [OF example_users_verified(1) example_users_can(1)]
  have nf: "FailCommit True \<noteq> FailFindUser" "FailCommit False \<noteq> FailFindUser"
    "FailSaveProduct \<noteq> FailFindUser"
    by simp_all
  have u: "users (dbOf exUser) (req_userId exReq) = Some exUser"
    by (simp add: exReq_fields dbOf_fields)
  have a: "p_isActive exProduct" "p_downloads exProduct = 7" by (simp_all add: exProduct_def)
  have e: "existingRecentDownload exNow (req_userId exReq) 10 (dbOf exUser) = None"
    by (simp add: existingRecentDownload_def dbOf_fields)
  have f: "dailyDownloads exUser = 14" "monthlyDownloads exUser = 100"
    "totalDownloads exUser = 200"
    by (simp_all add: user_defs)
  have c1: "consume (FailCommit True) exNow exReq (dbOf exUser) = (NoResponse, afterFirst exUser)"
    using consume_eligible [OF exReq_fields(2) nf(1) u example_users_verified(1)
        example_users_can(1)] a e first(1)
    by (simp add: dbOf_fields)
  have c2: "consume (FailCommit False) exNow exReq (dbOf exUser) = (NoResponse, dbOf exUser)"
    using consume_eligible [OF exReq_fields(2) nf(2) u example_users_verified(1)
        example_users_can(1)] a e
    by (simp add: dbOf_fields)
  have c3: "consume FailSaveProduct exNow exReq (dbOf exUser) = (ServerError, dbOf exUser)"
    using consume_eligible [OF exReq_fields(2) nf(3) u example_users_verified(1)
        example_users_can(1)] a e
    by (simp add: dbOf_fields)
  have w: "length (downloadColl (afterFirst exUser)) = 1"
    "p_downloads (the (products (afterFirst exUser) 10)) = 8"
    by (simp_all add: first(1) acceptedDb_fields dbOf_fields a)
  have cnt: "dailyDownloads (the (users (afterFirst exUser) 7)) = 15"
    "monthlyDownloads (the (users (afterFirst exUser) 7)) = 101"
    "totalDownloads (the (users (afterFirst exUser) 7)) = 201"
    by (simp_all add: first(3) acceptedUser_fields rolled_exUser f)
  show ?thesis
    using f(1) c1 c2 c3 w cnt by (simp add: dbOf_fields)
qed

text \<open>
  C3, as amended: if a request is accepted at \<open>t1\<close>, and a second request for the same user
  and product arrives at \<open>t2\<close> within 30 minutes of \<open>t1\<close> while the account is still
  eligible at \<open>t2\<close>, then the second request is answered as a replay that carries the same
  download URL and changes nothing: the two requests together leave exactly the one new
  download record and the one set of increments of the first.
\<close>

theorem replay_within_window:
  assumes "consume NoFault t1 req db = (Accepted b1, db1)"
    and "\<bar>t2 - t1\<bar> \<le> 30 * 60 * 1000"
    and "users db1 (req_userId req) = Some u1"
    and "r_canDownload (fst (canDownload t2 u1))"
  shows "(\<exists>b2. consume NoFault t2 req db1 = (Replayed b2, db1) \<and>
               rp_downloadUrl b2 = ac_downloadUrl b1) \<and>
         downloadColl db1 = downloadColl db @ [ac_download b1] \<and>
         consumeAll [(NoFault, t1, req), (NoFault, t2, req)] db = db1"
proof -
  from consume_accepted_cases [OF assms(1)]
  obtain pid u p where *: "req_productId req = Some pid" "users db (req_userId req) = Some u"
    "isVerified u" "products db pid = Some p" "p_isActive p"
    "db1 = acceptedDb t1 req pid p u db" "ac_download b1 = acceptedDownload t1 req pid p"
    "ac_downloadUrl b1 = downloadUrl p"
    by blast
  have u1: "u1 = acceptedUser t1 pid p u"
    using assms(3) *(6) by (simp add: acceptedDb_fields)
  have v: "isVerified u1" using *(3) u1 by (simp add: acceptedUser_fields)
  have p1: "products db1 pid = Some (p\<lparr>p_downloads := p_downloads p + 1\<rparr>)"
    using *(6) by (simp add: acceptedDb_fields)
  have "t2 - 30 * 60 * 1000 \<le> t1" using assms(2) by linarith
  then have e: "existingRecentDownload t2 (req_userId req) pid db1 \<noteq> None"
    unfolding existingRecentDownload_def Let_def *(6) acceptedDb_fields
    by (intro find_append_last) (simp add: acceptedDownload_fields)
  have nf: "NoFault \<noteq> FailFindUser" by simp
  have r: "\<exists>b2. consume NoFault t2 req db1 = (Replayed b2, db1) \<and>
               rp_downloadUrl b2 = ac_downloadUrl b1"
    using consume_eligible [OF *(1) nf assms(3) v assms(4)] p1 e *(5,8) by auto
  have c: "downloadColl db1 = downloadColl db @ [ac_download b1]"
    using *(6,7) by (simp add: acceptedDb_fields)
  show ?thesis using r c assms(1) by auto
qed

theorem replay_within_window_witness:
  "consume NoFault exNow exReq (dbOf lightUser) =
     (fst (consume NoFault exNow exReq (dbOf lightUser)), afterFirst lightUser) \<and>
   isAccepted (fst (consume NoFault exNow exReq (dbOf lightUser))) \<and>
   \<bar>(exNow + 60000) - exNow\<bar> \<le> 30 * 60 * 1000 \<and>
   r_canDownload (fst (canDownload (exNow + 60000) (the (users (afterFirst lightUser) 7)))) \<and>
   isReplayed (fst (consume NoFault (exNow + 60000) exReq (afterFirst lightUser))) \<and>
   snd (consume NoFault (exNow + 60000) exReq (afterFirst lightUser)) = afterFirst lightUser \<and>
   length (downloadColl (afterFirst lightUser)) = 1"
proof -
  note first = afterFirst_eq [OF example_users_verified(2) example_users_can(2)]
  obtain b1 where b1: "consume NoFault exNow exReq (dbOf lightUser) = (Accepted b1, afterFirst lightUser)"
    using first(2) by (cases "fst (consume NoFault exNow exReq (dbOf lightUser))")
      (simp_all add: afterFirst_def prod_eq_iff)
  have w: "\<bar>(exNow + 60000) - exNow\<bar> \<le> 30 * 60 * 1000" by simp
  have u: "users (afterFirst lightUser) (req_userId exReq)
             = Some (acceptedUser exNow 10 exProduct lightUser)"
    using first(3) by (simp add: exReq_fields)
  have f: "dailyDownloads lightUser = 3" "monthlyDownloads lightUser = 100"
    "monthlyLimit (exNow + 60000) lightUser = 350"
    by (simp_all add: monthlyLimit_def isActive_def isPremium_def user_defs)
  have c: "r_canDownload (fst (canDownload (exNow + 60000) (acceptedUser exNow 10 exProduct lightUser)))"
    using acceptedUser_can [OF example_users_current(1) example_anchor(2) exNow_days(3) exNow_tokens(3)]
      example_users_verified(2) f by simp
  show ?thesis
    using replay_within_window [OF b1 w u c] b1 w c first(3)
    by (auto simp add: dbOf_fields)
qed

text \<open>
  C3 as stated, for every account eligible at the first request, fails: the eligibility check
  comes before the replay check. An account with 14 downloads today is eligible; its first
  request is accepted and exhausts the daily window, and the same request one minute later
  is denied, not replayed.
\<close>

theorem replay_within_window_counterexample:
  "r_canDownload (fst (canDownload exNow exUser)) \<and>
   isAccepted (fst (consume NoFault exNow exReq (dbOf exUser))) \<and>
   \<bar>(exNow + 60000) - exNow\<bar> \<le> 30 * 60 * 1000 \<and>
   isDenied (fst (consume NoFault (exNow + 60000) exReq (afterFirst exUser))) \<and>
   \<not> isReplayed (fst (consume NoFault (exNow + 60000) exReq (afterFirst exUser)))"
proof -
  have f: "dailyDownloads exUser = 14" by (simp add: user_defs)
  note first = afterFirst_eq [OF example_users_verified(1) example_users_can(1)]
  note second = second_request_denied [OF example_users_verified(1) example_users_can(1)
      rolled_exUser example_anchor(1) exNow_days(3) exNow_tokens(3)]
  have d: "isDenied (fst (consume NoFault (exNow + 60000) exReq (afterFirst exUser)))"
    using second(1) f by simp
  then have "\<not> isReplayed (fst (consume NoFault (exNow + 60000) exReq (afterFirst exUser)))"
    by (cases "fst (consume NoFault (exNow + 60000) exReq (afterFirst exUser))") simp_all
  then show ?thesis using example_users_can(1) first(2) d by simp
qed

section \<open>The daily limit on the two download paths\<close>


end
